theory Spec2Isabelle
  imports Complex_Main "HOL-Library.Word" "HOL-Library.AList"
begin

unbundle bit_operations_syntax

section \<open>PCM conversion (process.go, package myaudio)\<close>

subsection \<open>Machine types\<close>

type_synonym byte = "8 word"
type_synonym int16 = "16 word"
type_synonym int32 = "32 word"

text \<open>
  A \<open>float32\<close> is represented by the real number it denotes. The only operations the
  converter performs on floats are the conversion of a signed integer to \<open>float32\<close>
  and a division by a power of two. The conversion rounds to the nearest value with a
  24-bit significand, ties to even; the division by \<open>2^15\<close>, \<open>2^23\<close> or \<open>2^31\<close> only
  lowers the exponent (which stays far above the subnormal range), so it is exact and is
  written as the division of reals.
\<close>

type_synonym float32 = real

text \<open>Number of low bits an integer of magnitude \<open>a\<close> loses in a 24-bit significand.\<close>

function excess_bits :: "int \<Rightarrow> nat" where
  "excess_bits a = (if a < 2 ^ 24 then 0 else Suc (excess_bits (a div 2)))"
  by pat_completeness auto
termination
  by (relation "measure nat") auto

declare excess_bits.simps [simp del]

text \<open>
  Rounding a magnitude to 24 significant bits, to nearest and ties to even: the low
  \<open>excess_bits a\<close> bits are cut off and the rest is incremented when the cut-off part
  is more than half a unit, or exactly half with an odd rest.
\<close>

definition round24 :: "int \<Rightarrow> int" where
  "round24 a =
     (let e = excess_bits a;
          q = a div 2 ^ e;
          r = a mod 2 ^ e;
          q' = (if 2 * r > 2 ^ e \<or> (2 * r = 2 ^ e \<and> odd q) then q + 1 else q)
      in q' * 2 ^ e)"

text \<open>The Go conversion \<open>float32(v)\<close> of a signed integer \<open>v\<close>.\<close>

definition float32_of_int :: "int \<Rightarrow> float32" where
  "float32_of_int v = real_of_int (sgn v * round24 \<bar>v\<bar>)"

subsection \<open>Errors and checked slice access\<close>

text \<open>
  \<open>IndexOutOfRange\<close> is the runtime panic of a slice access; \<open>UnsupportedBitDepth\<close>
  is the validation error built by \<open>ConvertToFloat32\<close>; the other two are the errors
  \<open>ProcessData\<close> wraps with \<open>fmt.Errorf\<close>.
\<close>

datatype error =
    IndexOutOfRange
  | UnsupportedBitDepth int
  | ConvertFailed int error
  | PredictFailed string

text \<open>Reading and writing a Go slice element panics outside \<open>0 \<le> i < len\<close>.\<close>

definition index :: "'a list \<Rightarrow> nat \<Rightarrow> error + 'a" where
  "index xs i = (if i < length xs then Inr (xs ! i) else Inl IndexOutOfRange)"

definition store :: "'a list \<Rightarrow> nat \<Rightarrow> 'a \<Rightarrow> error + 'a list" where
  "store xs i v = (if i < length xs then Inr (xs[i := v]) else Inl IndexOutOfRange)"

subsection \<open>The float buffer pool\<close>

text \<open>
  Modelled from the spec: the type \<open>Float32Pool\<close> with \<open>NewFloat32Pool\<close>, \<open>Get\<close> and
  \<open>Put\<close> is not part of the sources at hand. The spec describes it as a pool of
  reusable fixed-length float slices sized to the standard window length: \<open>Get\<close> hands
  out a slice of the pool's size (a recycled one, with whatever it held before, or a
  fresh one), \<open>Put\<close> takes a slice back.
\<close>

record Float32Pool =
  pool_size :: nat
  pool_free :: "float32 list list"

definition NewFloat32Pool :: "nat \<Rightarrow> Float32Pool" where
  "NewFloat32Pool n = \<lparr>pool_size = n, pool_free = []\<rparr>"

definition pool_Get :: "Float32Pool \<Rightarrow> float32 list \<times> Float32Pool" where
  "pool_Get p =
     (case pool_free p of
        [] \<Rightarrow> (replicate (pool_size p) 0, p)
      | b # bs \<Rightarrow> (b, p\<lparr>pool_free := bs\<rparr>))"

definition pool_Put :: "Float32Pool \<Rightarrow> float32 list \<Rightarrow> Float32Pool" where
  "pool_Put p b = p\<lparr>pool_free := b # pool_free p\<rparr>"

text \<open>
  The package-level variable \<open>float32Pool\<close> is \<open>None\<close> while nil. \<open>InitFloat32Pool\<close>
  sizes it to \<open>conf.BufferSize / 2\<close>; \<open>conf.BufferSize\<close> is a constant of another
  package and is a parameter here.
\<close>

definition InitFloat32Pool :: "nat \<Rightarrow> Float32Pool option" where
  "InitFloat32Pool BufferSize = Some (NewFloat32Pool (BufferSize div 2))"

definition ReturnFloat32Buffer ::
  "nat \<Rightarrow> Float32Pool option \<Rightarrow> float32 list \<Rightarrow> Float32Pool option" where
  "ReturnFloat32Buffer BufferSize pool buffer =
     (case pool of
        None \<Rightarrow> None
      | Some p \<Rightarrow>
          if length buffer = BufferSize div 2 then Some (pool_Put p buffer) else Some p)"

text \<open>Every slice the pool holds has the pool's size, which is \<open>conf.BufferSize / 2\<close>.\<close>

definition pool_ok :: "nat \<Rightarrow> Float32Pool option \<Rightarrow> bool" where
  "pool_ok BufferSize pool =
     (case pool of
        None \<Rightarrow> True
      | Some p \<Rightarrow> pool_size p = BufferSize div 2 \<and>
                  list_all (\<lambda>b. length b = pool_size p) (pool_free p))"

subsection \<open>The three conversion loops\<close>

text \<open>
  The sample expressions of the loop bodies. A byte converts to a signed integer by zero
  extension; \<open><<\<close> binds tighter than \<open>|\<close> in Go.
\<close>

definition sample16 :: "byte \<Rightarrow> byte \<Rightarrow> int16" where
  "sample16 b0 b1 = (ucast b0) OR (push_bit 8 (ucast b1))"

definition sample24 :: "byte \<Rightarrow> byte \<Rightarrow> byte \<Rightarrow> int32" where
  "sample24 b0 b1 b2 =
     (let s = (ucast b0) OR (push_bit 8 (ucast b1)) OR (push_bit 16 (ucast b2))
      in if 0 <s (s AND 0x00800000) then s OR (NOT 0x00FFFFFF) else s)"

definition sample32 :: "byte \<Rightarrow> byte \<Rightarrow> byte \<Rightarrow> byte \<Rightarrow> int32" where
  "sample32 b0 b1 b2 b3 =
     (ucast b0) OR (push_bit 8 (ucast b1)) OR (push_bit 16 (ucast b2))
       OR (push_bit 24 (ucast b3))"

function convert16_loop ::
  "byte list \<Rightarrow> nat \<Rightarrow> nat \<Rightarrow> float32 list \<Rightarrow> error + float32 list" where
  "convert16_loop sample len i float32Data =
     (if i < len then
        (case index sample (i * 2) of Inl e \<Rightarrow> Inl e | Inr b0 \<Rightarrow>
        (case index sample (i * 2 + 1) of Inl e \<Rightarrow> Inl e | Inr b1 \<Rightarrow>
        (case store float32Data i (float32_of_int (sint (sample16 b0 b1)) / 32768) of
           Inl e \<Rightarrow> Inl e
         | Inr d \<Rightarrow> convert16_loop sample len (i + 1) d)))
      else Inr float32Data)"
  by pat_completeness auto
termination
  by (relation "measure (\<lambda>(sample, len, i, d). len - i)") auto

declare convert16_loop.simps [simp del]

definition convert16BitToFloat32 ::
  "nat \<Rightarrow> Float32Pool option \<Rightarrow> byte list \<Rightarrow> error + float32 list \<times> Float32Pool option" where
  "convert16BitToFloat32 BufferSize pool sample =
     (let len = length sample div 2;
          (float32Data, pool') =
             (case pool of
                Some p \<Rightarrow>
                  if len = BufferSize div 2
                  then (let (b, p') = pool_Get p in (b, Some p'))
                  else (replicate len 0, pool)
              | None \<Rightarrow> (replicate len 0, pool))
      in case convert16_loop sample len 0 float32Data of
           Inl e \<Rightarrow> Inl e
         | Inr d \<Rightarrow> Inr (d, pool'))"

function convert24_loop ::
  "byte list \<Rightarrow> nat \<Rightarrow> nat \<Rightarrow> float32 list \<Rightarrow> error + float32 list" where
  "convert24_loop sample len i float32Data =
     (if i < len then
        (case index sample (i * 3) of Inl e \<Rightarrow> Inl e | Inr b0 \<Rightarrow>
        (case index sample (i * 3 + 1) of Inl e \<Rightarrow> Inl e | Inr b1 \<Rightarrow>
        (case index sample (i * 3 + 2) of Inl e \<Rightarrow> Inl e | Inr b2 \<Rightarrow>
        (case store float32Data i (float32_of_int (sint (sample24 b0 b1 b2)) / 8388608) of
           Inl e \<Rightarrow> Inl e
         | Inr d \<Rightarrow> convert24_loop sample len (i + 1) d))))
      else Inr float32Data)"
  by pat_completeness auto
termination
  by (relation "measure (\<lambda>(sample, len, i, d). len - i)") auto

declare convert24_loop.simps [simp del]

definition convert24BitToFloat32 :: "byte list \<Rightarrow> error + float32 list" where
  "convert24BitToFloat32 sample =
     (let len = length sample div 3
      in convert24_loop sample len 0 (replicate len 0))"

function convert32_loop ::
  "byte list \<Rightarrow> nat \<Rightarrow> nat \<Rightarrow> float32 list \<Rightarrow> error + float32 list" where
  "convert32_loop sample len i float32Data =
     (if i < len then
        (case index sample (i * 4) of Inl e \<Rightarrow> Inl e | Inr b0 \<Rightarrow>
        (case index sample (i * 4 + 1) of Inl e \<Rightarrow> Inl e | Inr b1 \<Rightarrow>
        (case index sample (i * 4 + 2) of Inl e \<Rightarrow> Inl e | Inr b2 \<Rightarrow>
        (case index sample (i * 4 + 3) of Inl e \<Rightarrow> Inl e | Inr b3 \<Rightarrow>
        (case store float32Data i
                (float32_of_int (sint (sample32 b0 b1 b2 b3)) / 2147483648) of
           Inl e \<Rightarrow> Inl e
         | Inr d \<Rightarrow> convert32_loop sample len (i + 1) d)))))
      else Inr float32Data)"
  by pat_completeness auto
termination
  by (relation "measure (\<lambda>(sample, len, i, d). len - i)") auto

declare convert32_loop.simps [simp del]

definition convert32BitToFloat32 :: "byte list \<Rightarrow> error + float32 list" where
  "convert32BitToFloat32 sample =
     (let len = length sample div 4
      in convert32_loop sample len 0 (replicate len 0))"

subsection \<open>ConvertToFloat32\<close>

text \<open>
  The Go function returns \<open>([][]float32, error)\<close>; \<open>Inl\<close> is the error with a nil
  slice, \<open>Inr\<close> the slice with a nil error. The state of the pool is threaded through.
\<close>

definition ConvertToFloat32 ::
  "nat \<Rightarrow> Float32Pool option \<Rightarrow> byte list \<Rightarrow> int
     \<Rightarrow> error + float32 list list \<times> Float32Pool option" where
  "ConvertToFloat32 BufferSize pool sample bitDepth =
     (if bitDepth = 16 then
        (case convert16BitToFloat32 BufferSize pool sample of
           Inl e \<Rightarrow> Inl e
         | Inr (d, pool') \<Rightarrow> Inr ([d], pool'))
      else if bitDepth = 24 then
        (case convert24BitToFloat32 sample of
           Inl e \<Rightarrow> Inl e
         | Inr d \<Rightarrow> Inr ([d], pool))
      else if bitDepth = 32 then
        (case convert32BitToFloat32 sample of
           Inl e \<Rightarrow> Inl e
         | Inr d \<Rightarrow> Inr ([d], pool))
      else Inl (UnsupportedBitDepth bitDepth))"

subsection \<open>ProcessData and the results queue\<close>

text \<open>
  The message type \<open>birdnet.Results\<close> and one entry of the prediction output
  (species label and confidence).
\<close>

record Result =
  Species :: string
  Confidence :: float32

record birdnet_Results =
  StartTime :: int
  ElapsedTime :: int
  PCMdata :: "byte list"
  Results :: "Result list"
  Source :: string

datatype log_event =
    LogDebugHeader
  | LogDebugResult float32 string
  | LogProcessingTimeWarning int int string
  | LogQueueFull

text \<open>
  The package state \<open>ProcessData\<close> touches: the buffered channel
  \<open>birdnet.ResultsQueue\<close> (its buffer, oldest entry first), the float pool and the
  log output.
\<close>

record process_state =
  ResultsQueue :: "birdnet_Results list"
  float32Pool :: "Float32Pool option"
  log_output :: "log_event list"

text \<open>
  Configuration read by \<open>ProcessData\<close>. The values are declared in other packages and
  are parameters: \<open>conf.BufferSize\<close>, \<open>conf.BitDepth\<close>, the debug flag, the overlap
  already converted to a duration in nanoseconds, and the capacity the channel
  \<open>birdnet.ResultsQueue\<close> was made with.
\<close>

record settings =
  conf_BufferSize :: nat
  conf_BitDepth :: int
  conf_Debug :: bool
  conf_overlapDuration :: int
  queue_capacity :: nat

definition log_line :: "log_event \<Rightarrow> process_state \<Rightarrow> process_state" where
  "log_line ev st = st\<lparr>log_output := log_output st @ [ev]\<rparr>"

text \<open>
  The \<open>select\<close> with a \<open>default\<close> branch. Nothing receives from the channel while
  \<open>ProcessData\<close> runs, so the send case is ready exactly when the buffer has room;
  otherwise the default branch runs at once and logs that the queue is full.
\<close>

definition send_results :: "nat \<Rightarrow> birdnet_Results \<Rightarrow> process_state \<Rightarrow> process_state" where
  "send_results capacity resultsMessage st =
     (if length (ResultsQueue st) < capacity
      then st\<lparr>ResultsQueue := ResultsQueue st @ [resultsMessage]\<rparr>
      else log_line LogQueueFull st)"

definition debug_print :: "Result list \<Rightarrow> process_state \<Rightarrow> process_state" where
  "debug_print results st =
     (let shown = filter (\<lambda>r. Confidence r > 0) results
      in if shown \<noteq> []
         then st\<lparr>log_output := log_output st @ LogDebugHeader #
                   map (\<lambda>r. LogDebugResult (Confidence r) (Species r)) shown\<rparr>
         else st)"

text \<open>
  \<open>Predict\<close> is the inference collaborator and \<open>elapsedTime\<close> what the clock measured
  around it. The result is the returned error (\<open>None\<close> for nil) and the new state. A
  panic of the conversion would propagate unwrapped.
\<close>

definition ProcessData ::
  "settings \<Rightarrow> (float32 list list \<Rightarrow> string + Result list) \<Rightarrow> int \<Rightarrow> process_state
     \<Rightarrow> byte list \<Rightarrow> int \<Rightarrow> string \<Rightarrow> error option \<times> process_state" where
  "ProcessData conf Predict elapsedTime st data startTime source =
     (case ConvertToFloat32 (conf_BufferSize conf) (float32Pool st) data (conf_BitDepth conf) of
        Inl err \<Rightarrow>
          (Some (if err = IndexOutOfRange then err else ConvertFailed (conf_BitDepth conf) err),
           st)
      | Inr (sampleData, pool') \<Rightarrow>
          (let st1 = st\<lparr>float32Pool := pool'\<rparr>;
               predicted = Predict sampleData;
               st2 = (if conf_BitDepth conf = 16 \<and> length sampleData > 0 \<and>
                         length (hd sampleData) = conf_BufferSize conf div 2
                      then st1\<lparr>float32Pool :=
                             ReturnFloat32Buffer (conf_BufferSize conf) pool' (hd sampleData)\<rparr>
                      else st1)
           in case predicted of
                Inl msg \<Rightarrow> (Some (PredictFailed msg), st2)
              | Inr results \<Rightarrow>
                  (let st3 = (if conf_Debug conf then debug_print results st2 else st2);
                       effectiveBufferDuration = 3 * 1000000000 - conf_overlapDuration conf;
                       st4 = (if elapsedTime > effectiveBufferDuration
                              then log_line (LogProcessingTimeWarning elapsedTime
                                               effectiveBufferDuration source) st3
                              else st3);
                       resultsMessage = \<lparr>StartTime = startTime, ElapsedTime = elapsedTime,
                                          PCMdata = data, Results = results, Source = source\<rparr>
                   in (None, send_results (queue_capacity conf) resultsMessage st4))))"

text \<open>Number of drops recorded so far: the "queue is full" lines in the log.\<close>

definition drops :: "process_state \<Rightarrow> nat" where
  "drops st = length (filter (\<lambda>ev. ev = LogQueueFull) (log_output st))"

text \<open>Feeding finished results to the queue one after the other, nothing consuming.\<close>

definition feed :: "nat \<Rightarrow> birdnet_Results list \<Rightarrow> process_state \<Rightarrow> process_state" where
  "feed capacity msgs st = fold (send_results capacity) msgs st"

definition initial_state :: process_state where
  "initial_state = \<lparr>ResultsQueue = [], float32Pool = None, log_output = []\<rparr>"

text \<open>A message for concrete runs.\<close>

definition sample_message :: birdnet_Results where
  "sample_message = \<lparr>StartTime = 0, ElapsedTime = 5, PCMdata = [1, 2], Results = [],
                      Source = ''src''\<rparr>"

subsection \<open>Sample layouts\<close>

text \<open>
  The little-endian two's-complement layout of a signed sample in \<open>n\<close> bytes, as the
  decoder subprocess writes it: byte \<open>k\<close> holds bits \<open>8k\<close> to \<open>8k+7\<close>.
\<close>

definition encode_le :: "nat \<Rightarrow> int \<Rightarrow> byte list" where
  "encode_le n v = map (\<lambda>k. word_of_int (v div 256 ^ k)) [0..<n]"

definition bytesPerSample :: "int \<Rightarrow> nat" where
  "bytesPerSample bitDepth = nat bitDepth div 8"

definition maxMagnitude :: "int \<Rightarrow> int" where
  "maxMagnitude bitDepth = 2 ^ (nat bitDepth - 1)"

text \<open>The value each loop stores at index \<open>k\<close> of its output.\<close>

definition decode16 :: "byte list \<Rightarrow> nat \<Rightarrow> float32" where
  "decode16 sample k =
     float32_of_int (sint (sample16 (sample ! (k * 2)) (sample ! (k * 2 + 1)))) / 32768"

definition decode24 :: "byte list \<Rightarrow> nat \<Rightarrow> float32" where
  "decode24 sample k =
     float32_of_int (sint (sample24 (sample ! (k * 3)) (sample ! (k * 3 + 1))
                                    (sample ! (k * 3 + 2)))) / 8388608"

definition decode32 :: "byte list \<Rightarrow> nat \<Rightarrow> float32" where
  "decode32 sample k =
     float32_of_int (sint (sample32 (sample ! (k * 4)) (sample ! (k * 4 + 1))
                                    (sample ! (k * 4 + 2)) (sample ! (k * 4 + 3))))
       / 2147483648"

text \<open>The same, by bit depth.\<close>

definition decode :: "int \<Rightarrow> byte list \<Rightarrow> nat \<Rightarrow> float32" where
  "decode bitDepth sample k =
     (if bitDepth = 16 then decode16 sample k
      else if bitDepth = 24 then decode24 sample k
      else decode32 sample k)"

section \<open>The FFmpeg process monitor (package myaudio)\<close>


text \<open>
  The registry \<open>ffmpegProcesses\<close> is a \<open>sync.Map\<close>: keys and values are of type
  \<open>any\<close>. Both traversals of a pass start with \<open>url := key.(string)\<close>, which panics on
  a key that is not a string.
\<close>

datatype repo_key = URL string | OtherKey

text \<open>
  What \<open>cleanupOrphanedProcesses\<close> can meet in a \<open>*FFmpegProcess\<close>: the pointer itself
  is nil; or \<open>cmd\<close> is nil; or \<open>cmd.Process\<close> is nil; or there is a process with a pid.
\<close>

datatype ffmpeg_target = NilFFmpegProcess | NoCmd | NoProcess | ProcessPid int

text \<open>
  What the reflection fallback can meet in the field \<open>cmd\<close> of another struct:
  \<^item> \<open>CmdNotNilable\<close>: a field of a kind \<open>IsNil\<close> does not accept (a struct, a number, a
    string, ...);
  \<^item> \<open>CmdNil\<close>: a nil pointer, interface, map, slice, channel or function;
  \<^item> \<open>CmdNoElem\<close>: a non-nil map, slice, channel or function, which has no \<open>Elem\<close>;
  \<^item> \<open>CmdNotStruct\<close>: a pointer to, or an interface holding, something that is not a
    struct, so that \<open>FieldByName\<close> is not defined;
  \<^item> \<open>CmdNoPid\<close>: a struct without a field \<open>pid\<close>;
  \<^item> \<open>CmdPidNotInt\<close>: a struct whose field \<open>pid\<close> is not of a signed integer kind;
  \<^item> \<open>CmdPid pid\<close>: a struct with the integer field \<open>pid\<close>.
\<close>

datatype cmd_field =
    CmdNotNilable
  | CmdNil
  | CmdNoElem
  | CmdNotStruct
  | CmdNoPid
  | CmdPidNotInt
  | CmdPid int

text \<open>
  What a pointer other than a \<open>*FFmpegProcess\<close> can point to: nothing (a typed nil
  pointer), something that is not a struct, a struct without a field \<open>cmd\<close>, or a struct
  with one.
\<close>

datatype pointer_target = NilPointer | NotStruct | StructNoCmd | StructCmd cmd_field

text \<open>
  The registry values the monitor tells apart: the nil interface value; a
  \<open>*FFmpegProcess\<close>; another pointer, as the tests use, with or without a \<open>Cleanup\<close>
  method; a value that is not a pointer, with or without a \<open>Cleanup\<close> method.
\<close>

datatype repo_value =
    NilValue
  | FFmpegProcess ffmpeg_target
  | MockProcess bool pointer_target
  | NonPointer bool


text \<open>
  The pid \<open>cleanupOrphanedProcesses\<close> extracts from a registry value. The lookup
  panics: on the nil value (\<open>reflect.TypeOf\<close> returns nil and \<open>Kind\<close> is called on it), on a
  nil \<open>*FFmpegProcess\<close> (\<open>process.cmd\<close> dereferences it), and in the reflection
  fallback where \<open>FieldByName\<close>, \<open>IsNil\<close>, \<open>Elem\<close> or \<open>Int\<close> is not defined. A
  \<open>*FFmpegProcess\<close> with a \<open>cmd\<close> but no \<open>Process\<close> goes through the fallback, which
  finds no field \<open>pid\<close> in the command.
\<close>

datatype pid_lookup = Panics | NoPid | HasPid int

fun cmd_pid :: "cmd_field \<Rightarrow> pid_lookup" where
  "cmd_pid CmdNotNilable = Panics"
| "cmd_pid CmdNil = NoPid"
| "cmd_pid CmdNoElem = Panics"
| "cmd_pid CmdNotStruct = Panics"
| "cmd_pid CmdNoPid = NoPid"
| "cmd_pid CmdPidNotInt = Panics"
| "cmd_pid (CmdPid pid) = HasPid pid"

fun known_pid :: "repo_value \<Rightarrow> pid_lookup" where
  "known_pid NilValue = Panics"
| "known_pid (FFmpegProcess NilFFmpegProcess) = Panics"
| "known_pid (FFmpegProcess NoCmd) = NoPid"
| "known_pid (FFmpegProcess NoProcess) = NoPid"
| "known_pid (FFmpegProcess (ProcessPid pid)) = HasPid pid"
| "known_pid (MockProcess cleaner NilPointer) = Panics"
| "known_pid (MockProcess cleaner NotStruct) = Panics"
| "known_pid (MockProcess cleaner StructNoCmd) = NoPid"
| "known_pid (MockProcess cleaner (StructCmd cmd)) = cmd_pid cmd"
| "known_pid (NonPointer cleaner) = NoPid"


type_synonym registry = "(repo_key \<times> repo_value) list"













text \<open>
  Conditions on a registry: every key is a URL string; no value makes the pid lookup
  panic; the pids of the entries; no two entries carry the same pid.
\<close>

fun is_URL :: "repo_key \<Rightarrow> bool" where
  "is_URL (URL url) = True"
| "is_URL OtherKey = False"

definition keys_are_urls :: "registry \<Rightarrow> bool" where
  "keys_are_urls repo = list_all (\<lambda>entry. is_URL (fst entry)) repo"

definition lookup_safe :: "registry \<Rightarrow> bool" where
  "lookup_safe repo = list_all (\<lambda>entry. known_pid (snd entry) \<noteq> Panics) repo"

fun pid_list :: "pid_lookup \<Rightarrow> int list" where
  "pid_list (HasPid pid) = [pid]"
| "pid_list NoPid = []"
| "pid_list Panics = []"

definition registry_pids :: "registry \<Rightarrow> int list" where
  "registry_pids repo = concat (map (\<lambda>entry. pid_list (known_pid (snd entry))) repo)"









section \<open>The decoder process manager (package ffmpeg)\<close>

text \<open>
  The configuration types, with the fields the tests of the package set. Durations are
  \<open>time.Duration\<close> values, in nanoseconds; the backoff multiplier is a \<open>float64\<close>,
  represented by the real number it denotes.
\<close>

record RestartPolicy =
  Enabled :: bool
  MaxRetries :: int
  InitialDelay :: int
  MaxDelay :: int
  BackoffMultiplier :: real

record ManagerConfig =
  MaxProcesses :: int
  HealthCheckPeriod :: int
  CleanupTimeout :: int
  RestartPolicy :: RestartPolicy

record ProcessConfig =
  ID :: string
  InputURL :: string
  OutputFormat :: string
  SampleRate :: int
  Channels :: int
  BitDepth :: int
  BufferSize :: int
  FFmpegPath :: string

datatype State = Created | Starting | Running | Unhealthy | Stopping | Stopped | Failed

record managedProcess =
  config :: ProcessConfig
  state :: State
  restartPolicy :: RestartPolicy
  restartCount :: int
  nextDelay :: int

datatype manager_error = DuplicateID string | LimitExceeded int | InvalidConfig | NotFound string

text \<open>The registry maps a source id to its decoder; the list holds the entries in the
  order of their registration.\<close>

record manager =
  manager_config :: ManagerConfig
  processes :: "(string \<times> managedProcess) list"

definition NewManager :: "ManagerConfig \<Rightarrow> manager" where
  "NewManager cfg = \<lparr>manager_config = cfg, processes = []\<rparr>"

definition newManagedProcess :: "manager \<Rightarrow> ProcessConfig \<Rightarrow> managedProcess" where
  "newManagedProcess m cfg =
     \<lparr>config = cfg, state = Created,
      restartPolicy = RestartPolicy (manager_config m),
      restartCount = 0,
      nextDelay = InitialDelay (RestartPolicy (manager_config m))\<rparr>"

text \<open>
  Modelled from the spec: \<open>Manager.CreateProcess\<close> and \<open>Manager.RemoveProcess\<close> are
  not part of the sources at hand (only their tests are). By the spec, \<open>CreateProcess\<close>
  validates id uniqueness and that the current count is below \<open>MaxProcesses\<close>,
  registers a new decoder, and returns the errors DuplicateID, LimitExceeded and
  InvalidConfig as applicable; the checks are made in the order the spec names them.
  What makes a configuration invalid is not said and is the parameter \<open>valid\<close>.
  \<open>RemoveProcess\<close> deregisters and fails with NotFound when the id is absent.
\<close>

definition CreateProcess ::
  "(ProcessConfig \<Rightarrow> bool) \<Rightarrow> manager \<Rightarrow> ProcessConfig
     \<Rightarrow> manager_error + managedProcess \<times> manager" where
  "CreateProcess valid m cfg =
     (if ID cfg \<in> set (map fst (processes m)) then Inl (DuplicateID (ID cfg))
      else if \<not> int (length (processes m)) < MaxProcesses (manager_config m)
      then Inl (LimitExceeded (MaxProcesses (manager_config m)))
      else if \<not> valid cfg then Inl InvalidConfig
      else (let p = newManagedProcess m cfg
            in Inr (p, m\<lparr>processes := processes m @ [(ID cfg, p)]\<rparr>)))"

definition RemoveProcess :: "manager \<Rightarrow> string \<Rightarrow> manager_error + manager" where
  "RemoveProcess m pid =
     (if pid \<in> set (map fst (processes m))
      then Inr (m\<lparr>processes := filter (\<lambda>e. fst e \<noteq> pid) (processes m)\<rparr>)
      else Inl (NotFound pid))"

definition GetProcess :: "manager \<Rightarrow> string \<Rightarrow> managedProcess option" where
  "GetProcess m pid = map_of (processes m) pid"

text \<open>The registry entries stored under one id.\<close>

definition entries_for :: "manager \<Rightarrow> string \<Rightarrow> managedProcess list" where
  "entries_for m pid = map snd (filter (\<lambda>e. fst e = pid) (processes m))"

text \<open>Operations a client can apply to a manager; a failed operation leaves the manager
  as it was.\<close>

datatype manager_op = Create ProcessConfig | Remove string

fun apply_op :: "(ProcessConfig \<Rightarrow> bool) \<Rightarrow> manager_op \<Rightarrow> manager \<Rightarrow> manager" where
  "apply_op valid (Create cfg) m =
     (case CreateProcess valid m cfg of Inl e \<Rightarrow> m | Inr (p, m') \<Rightarrow> m')"
| "apply_op valid (Remove pid) m =
     (case RemoveProcess m pid of Inl e \<Rightarrow> m | Inr m' \<Rightarrow> m')"

text \<open>The set-up of the package's tests.\<close>

definition accept_all :: "ProcessConfig \<Rightarrow> bool" where
  "accept_all cfg = True"

definition test_config :: "string \<Rightarrow> ProcessConfig" where
  "test_config pid =
     \<lparr>ID = pid, InputURL = ''test.wav'', OutputFormat = ''s16le'', SampleRate = 48000,
      Channels = 2, BitDepth = 16, BufferSize = 1024, FFmpegPath = ''/usr/bin/ffmpeg''\<rparr>"

definition limit_config :: "int \<Rightarrow> ManagerConfig" where
  "limit_config n =
     \<lparr>MaxProcesses = n, HealthCheckPeriod = 0, CleanupTimeout = 0,
      RestartPolicy = \<lparr>Enabled = False, MaxRetries = 0, InitialDelay = 0, MaxDelay = 0,
                        BackoffMultiplier = 0\<rparr>\<rparr>"

subsection \<open>Restart policy\<close>

text \<open>
  The conversion \<open>time.Duration(x)\<close> of a float truncates towards zero.
\<close>

definition duration_of_float :: "real \<Rightarrow> int" where
  "duration_of_float x = (if 0 \<le> x then \<lfloor>x\<rfloor> else \<lceil>x\<rceil>)"

text \<open>
  Modelled from the spec: the code that reacts to a decoder's exit is not part of the
  sources at hand (the test of the package shows the arithmetic on \<open>nextDelay\<close>). By the
  spec, on an unexpected exit, if the policy is enabled and \<open>restartCount < MaxRetries\<close>,
  a restart is scheduled after \<open>nextDelay\<close>, the attempt is counted, and then
  \<open>nextDelay = min(nextDelay \<times> BackoffMultiplier, MaxDelay)\<close>; otherwise the decoder
  moves to Failed and nothing is scheduled. The result is the scheduled delay, if any,
  and the updated decoder.
\<close>

definition on_unexpected_exit :: "managedProcess \<Rightarrow> int option \<times> managedProcess" where
  "on_unexpected_exit mp =
     (let policy = restartPolicy mp in
      if Enabled policy \<and> restartCount mp < MaxRetries policy then
        (let scaled = duration_of_float (real_of_int (nextDelay mp) * BackoffMultiplier policy)
         in (Some (nextDelay mp),
             mp\<lparr>state := Starting,
                restartCount := restartCount mp + 1,
                nextDelay := (if scaled > MaxDelay policy then MaxDelay policy else scaled)\<rparr>))
      else (None, mp\<lparr>state := Failed\<rparr>))"

text \<open>The delays scheduled by \<open>n\<close> consecutive failures (\<open>None\<close>: no restart).\<close>

fun consecutive_failures :: "nat \<Rightarrow> managedProcess \<Rightarrow> int option list" where
  "consecutive_failures 0 mp = []"
| "consecutive_failures (Suc n) mp =
     (case on_unexpected_exit mp of (d, mp') \<Rightarrow> d # consecutive_failures n mp')"

definition second :: int where
  "second = 1000000000"

text \<open>A decoder freshly created under the policy of the claim, with \<open>n\<close> retries.\<close>

definition policy_1_2_30 :: "int \<Rightarrow> RestartPolicy" where
  "policy_1_2_30 n =
     \<lparr>Enabled = True, MaxRetries = n, InitialDelay = 1 * second, MaxDelay = 30 * second,
      BackoffMultiplier = 2\<rparr>"

definition fresh_process :: "RestartPolicy \<Rightarrow> ProcessConfig \<Rightarrow> managedProcess" where
  "fresh_process policy cfg =
     \<lparr>config = cfg, state = Created, restartPolicy = policy, restartCount = 0,
      nextDelay = InitialDelay policy\<rparr>"

section \<open>Proofs: conversion\<close>

subsection \<open>Rounding to float32\<close>

lemma excess_bits_small: "a < 2 ^ 24 \<Longrightarrow> excess_bits a = 0"
  by (simp add: excess_bits.simps)

lemma excess_bits_step: "\<not> a < 2 ^ 24 \<Longrightarrow> excess_bits a = Suc (excess_bits (a div 2))"
  by (subst excess_bits.simps) simp

lemma excess_bits_upper: "a < 2 ^ 24 * 2 ^ excess_bits a"
proof (induction a rule: excess_bits.induct)
  case (1 a)
  show ?case
  proof (cases "a < 2 ^ 24")
    case True
    then show ?thesis by (simp add: excess_bits_small)
  next
    case False
    have "a div 2 < 2 ^ 24 * 2 ^ excess_bits (a div 2)"
      using 1 False by simp
    then have "a < 2 * (2 ^ 24 * 2 ^ excess_bits (a div 2))" by linarith
    then show ?thesis by (simp add: excess_bits_step [OF False])
  qed
qed

lemma excess_bits_lower: "2 ^ 24 \<le> a \<Longrightarrow> 2 ^ 23 * 2 ^ excess_bits a \<le> a"
proof (induction a rule: excess_bits.induct)
  case (1 a)
  then have F: "\<not> a < 2 ^ 24" by simp
  show ?case
  proof (cases "a div 2 < 2 ^ 24")
    case True
    then have "excess_bits (a div 2) = 0" by (simp add: excess_bits_small)
    then show ?thesis using 1(2) by (simp add: excess_bits_step [OF F])
  next
    case False
    then have "2 ^ 23 * 2 ^ excess_bits (a div 2) \<le> a div 2"
      using 1 by simp
    then have "2 * (2 ^ 23 * 2 ^ excess_bits (a div 2)) \<le> a" by linarith
    then show ?thesis by (simp add: excess_bits_step [OF F])
  qed
qed

lemma excess_bits_le7:
  assumes "a < 2 ^ 31"
  shows "excess_bits a \<le> 7"
proof (cases "a < 2 ^ 24")
  case True
  then show ?thesis by (simp add: excess_bits_small)
next
  case False
  then have "(2::int) ^ 23 * 2 ^ excess_bits a \<le> a" using excess_bits_lower by simp
  with assms have "(2::int) ^ 23 * 2 ^ excess_bits a < 2 ^ 23 * 2 ^ 8" by simp
  then have "(2::int) ^ excess_bits a < 2 ^ 8"
    by (simp only: mult_less_cancel_left_pos zero_less_power zero_less_numeral)
  then have "excess_bits a < 8"
    by (simp only: power_strict_increasing_iff semiring_norm)
  then show ?thesis by simp
qed

lemma round24_small: "a < 2 ^ 24 \<Longrightarrow> round24 a = a"
  by (simp add: round24_def excess_bits_small)

lemma sgn_mult_abs_real: "real_of_int (sgn v) * \<bar>real_of_int v\<bar> = real_of_int v"
  by (cases "v < 0") (auto simp: sgn_if)

lemma float32_of_int_exact: "\<bar>v\<bar> < 2 ^ 24 \<Longrightarrow> float32_of_int v = real_of_int v"
  by (simp add: float32_of_int_def round24_small sgn_mult_abs_real)

lemma round24_cases:
  "round24 a = a div 2 ^ excess_bits a * 2 ^ excess_bits a \<or>
   round24 a = (a div 2 ^ excess_bits a + 1) * 2 ^ excess_bits a"
  by (simp add: round24_def Let_def)

lemma round24_err: "2 * \<bar>round24 a - a\<bar> \<le> 2 ^ excess_bits a"
proof -
  define e where "e = excess_bits a"
  define q where "q = a div 2 ^ e"
  define r where "r = a mod 2 ^ e"
  have a: "a = q * 2 ^ e + r"
    unfolding q_def r_def by (rule div_mult_mod_eq [symmetric])
  have r: "0 \<le> r" "r < 2 ^ e" by (simp_all add: r_def)
  show ?thesis
  proof (cases "2 * r > 2 ^ e \<or> (2 * r = 2 ^ e \<and> odd q)")
    case True
    then have "round24 a = (q + 1) * 2 ^ e"
      by (simp add: round24_def Let_def e_def [symmetric] q_def [symmetric] r_def [symmetric])
    then have "round24 a - a = 2 ^ e - r" using a by (simp add: algebra_simps)
    then show ?thesis using True r unfolding e_def [symmetric] by auto
  next
    case False
    then have "round24 a = q * 2 ^ e"
      by (simp add: round24_def Let_def e_def [symmetric] q_def [symmetric] r_def [symmetric])
    then have "round24 a - a = - r" using a by simp
    then show ?thesis using False r unfolding e_def [symmetric] by auto
  qed
qed

lemma round24_upper: "round24 a \<le> 2 ^ 24 * 2 ^ excess_bits a"
proof -
  define e where "e = excess_bits a"
  define q where "q = a div 2 ^ e"
  have lt: "a < 2 ^ 24 * 2 ^ e" unfolding e_def by (rule excess_bits_upper)
  have "q * 2 ^ e \<le> a"
  proof -
    have "0 \<le> a mod 2 ^ e" by simp
    then show ?thesis unfolding q_def using div_mult_mod_eq [of a "2 ^ e"] by linarith
  qed
  then have "q * 2 ^ e < 2 ^ 24 * 2 ^ e" using lt by (rule le_less_trans)
  then have "q < 2 ^ 24" by (rule mult_right_less_imp_less) simp
  then have "q + 1 \<le> 2 ^ 24" by simp
  then have "(q + 1) * 2 ^ e \<le> 2 ^ 24 * 2 ^ e" by (simp only: mult_le_cancel_right) simp
  moreover have "q * 2 ^ e \<le> (q + 1) * 2 ^ e" by (simp add: algebra_simps)
  moreover have "round24 a = q * 2 ^ e \<or> round24 a = (q + 1) * 2 ^ e"
    unfolding q_def e_def by (rule round24_cases)
  ultimately show ?thesis unfolding e_def [symmetric] by auto
qed

lemma round24_nonneg: "0 \<le> a \<Longrightarrow> 0 \<le> round24 a"
  by (simp add: round24_def Let_def pos_imp_zdiv_nonneg_iff)

lemma round24_int32:
  assumes "a \<le> 2 ^ 31"
  shows "\<bar>round24 a - a\<bar> \<le> 64 \<and> round24 a \<le> 2 ^ 31"
proof (cases "a = 2 ^ 31")
  case True
  have "excess_bits (2147483648::int) = 8" by (simp add: excess_bits.simps)
  then have "round24 (2 ^ 31) = 2 ^ 31" by (simp add: round24_def Let_def)
  then show ?thesis using True by simp
next
  case False
  then have lt: "a < 2 ^ 31" using assms by simp
  then have e: "excess_bits a \<le> 7" by (rule excess_bits_le7)
  then have "(2::int) ^ excess_bits a \<le> 2 ^ 7"
    by (simp only: power_increasing_iff semiring_norm)
  then have p: "(2::int) ^ excess_bits a \<le> 128" by simp
  have "2 * \<bar>round24 a - a\<bar> \<le> 128" using round24_err [of a] p by linarith
  moreover have "round24 a \<le> 16777216 * 2 ^ excess_bits a"
    using round24_upper [of a] by simp
  then have "round24 a \<le> 2147483648" using p by linarith
  ultimately show ?thesis by simp
qed

lemma float32_of_int_error:
  assumes "\<bar>v\<bar> \<le> 2 ^ 31"
  shows "\<bar>float32_of_int v - real_of_int v\<bar> \<le> 64"
proof -
  have "abs (round24 \<bar>v\<bar> - \<bar>v\<bar>) \<le> 64" using round24_int32 [of "\<bar>v\<bar>"] assms by simp
  moreover have "sgn v * round24 \<bar>v\<bar> - v = sgn v * (round24 \<bar>v\<bar> - \<bar>v\<bar>)"
    by (simp add: algebra_simps abs_sgn)
  ultimately have "abs (sgn v * round24 \<bar>v\<bar> - v) \<le> 64"
    by (simp add: abs_mult abs_sgn_eq)
  then have "abs (real_of_int (sgn v * round24 \<bar>v\<bar> - v)) \<le> 64"
    by (metis of_int_abs of_int_le_numeral_iff)
  then show ?thesis by (simp add: float32_of_int_def)
qed

lemma float32_of_int_bound:
  assumes "\<bar>v\<bar> \<le> 2 ^ 31"
  shows "\<bar>float32_of_int v\<bar> \<le> 2 ^ 31"
proof -
  have "round24 \<bar>v\<bar> \<le> 2 ^ 31" using round24_int32 [of "\<bar>v\<bar>"] assms by simp
  moreover have "0 \<le> round24 \<bar>v\<bar>" by (simp add: round24_nonneg)
  ultimately have "abs (sgn v * round24 \<bar>v\<bar>) \<le> 2 ^ 31"
    by (simp add: abs_mult abs_sgn_eq)
  then have "abs (real_of_int (sgn v * round24 \<bar>v\<bar>)) \<le> 2 ^ 31"
    by (metis of_int_abs of_int_le_numeral_power_cancel_iff)
  then show ?thesis by (simp add: float32_of_int_def)
qed

subsection \<open>Bits of the decoded samples\<close>

lemma bit_byte_lt: "bit (b :: byte) n \<Longrightarrow> n < 8"
  using bit_imp_le_length [of b n] by simp

lemma bit_c23: "bit (0x00800000 :: int) n \<longleftrightarrow> n = 23"
proof -
  have "bit (2 ^ 23 :: int) n \<longleftrightarrow> n = 23"
    by (auto simp only: bit_exp_iff) simp
  then show ?thesis by simp
qed

lemma bit_c24: "bit (0x00FFFFFF :: int) n \<longleftrightarrow> n < 24"
proof -
  have "bit (mask 24 :: int) n \<longleftrightarrow> n < 24"
    by (auto simp only: bit_mask_iff) simp
  then show ?thesis by (simp add: mask_eq_exp_minus_1)
qed

lemma and_sign24: "(s :: int32) AND 0x00800000 = (if bit s 23 then 0x00800000 else 0)"
  by (rule bit_word_eqI) (auto simp add: bit_and_iff bit_c23)

lemma sign24_test: "0 <s ((s :: int32) AND 0x00800000) \<longleftrightarrow> bit s 23"
  by (simp add: and_sign24 word_sless_alt)

lemma sample16_bits:
  "bit (sample16 b0 b1) n \<longleftrightarrow> (n < 8 \<and> bit b0 n) \<or> (8 \<le> n \<and> n < 16 \<and> bit b1 (n - 8))"
  unfolding sample16_def by (auto simp add: bit_simps dest: bit_byte_lt)

lemma sample24_bits:
  "bit (sample24 b0 b1 b2) n \<longleftrightarrow>
     (n < 8 \<and> bit b0 n) \<or> (8 \<le> n \<and> n < 16 \<and> bit b1 (n - 8)) \<or>
     (16 \<le> n \<and> n < 24 \<and> bit b2 (n - 16)) \<or> (24 \<le> n \<and> n < 32 \<and> bit b2 7)"
  unfolding sample24_def Let_def sign24_test
  by (auto simp add: bit_simps bit_c24 dest: bit_byte_lt)

lemma sample32_bits:
  "bit (sample32 b0 b1 b2 b3) n \<longleftrightarrow>
     (n < 8 \<and> bit b0 n) \<or> (8 \<le> n \<and> n < 16 \<and> bit b1 (n - 8)) \<or>
     (16 \<le> n \<and> n < 24 \<and> bit b2 (n - 16)) \<or> (24 \<le> n \<and> n < 32 \<and> bit b3 (n - 24))"
  unfolding sample32_def by (auto simp add: bit_simps dest: bit_byte_lt)

text \<open>The 24-bit sample is sign-extended: it always lies in the 24-bit signed range.\<close>

lemma sample24_range:
  "- (2 ^ 23) \<le> sint (sample24 b0 b1 b2) \<and> sint (sample24 b0 b1 b2) < 2 ^ 23"
proof -
  have "sint (sample24 b0 b1 b2) = signed_take_bit 23 (sint (sample24 b0 b1 b2))"
  proof (rule bit_eqI)
    fix n :: nat
    consider "n < 23" | "n = 23" | "23 < n" by linarith
    then show "bit (sint (sample24 b0 b1 b2)) n
        = bit (signed_take_bit 23 (sint (sample24 b0 b1 b2))) n"
      by cases (auto simp add: bit_signed_take_bit_iff bit_sint_iff sample24_bits min_def)
  qed
  then show ?thesis
    using signed_take_bit_int_greater_eq_minus_exp [of 23 "sint (sample24 b0 b1 b2)"]
      signed_take_bit_int_less_exp [where n = 23 and k = "sint (sample24 b0 b1 b2)"]
    by simp
qed

lemma sample16_range:
  "- (2 ^ 15) \<le> sint (sample16 b0 b1) \<and> sint (sample16 b0 b1) < 2 ^ 15"
  using sint_ge [of "sample16 b0 b1"] sint_lt [of "sample16 b0 b1"] by simp

lemma sample32_range:
  "- (2 ^ 31) \<le> sint (sample32 b0 b1 b2 b3) \<and> sint (sample32 b0 b1 b2 b3) < 2 ^ 31"
  using sint_ge [of "sample32 b0 b1 b2 b3"] sint_lt [of "sample32 b0 b1 b2 b3"] by simp

subsection \<open>Decoding an encoded sample\<close>

lemma bit_div_exp: "bit ((v::int) div 2 ^ k) n \<longleftrightarrow> bit v (k + n)"
  by (simp flip: drop_bit_eq_div add: bit_drop_bit_eq)

lemma bit_div_256: "bit ((v::int) div 256) n \<longleftrightarrow> bit v (8 + n)"
  using bit_div_exp [of v 8 n] by simp

lemma bit_div_65536: "bit ((v::int) div 65536) n \<longleftrightarrow> bit v (16 + n)"
  using bit_div_exp [of v 16 n] by simp

lemma bit_div_16777216: "bit ((v::int) div 16777216) n \<longleftrightarrow> bit v (24 + n)"
  using bit_div_exp [of v 24 n] by simp

lemmas byte_bits = bit_word_of_int_iff bit_div_256 bit_div_65536 bit_div_16777216

lemma sample16_enc: "sample16 (word_of_int v) (word_of_int (v div 256)) = word_of_int v"
  by (rule bit_word_eqI) (auto simp add: sample16_bits byte_bits)

lemma sample32_enc:
  "sample32 (word_of_int v) (word_of_int (v div 256)) (word_of_int (v div 65536))
     (word_of_int (v div 16777216)) = word_of_int v"
proof (rule bit_word_eqI)
  fix n :: nat
  assume "n < LENGTH(32)"
  then consider "n < 8" | "8 \<le> n" "n < 16" | "16 \<le> n" "n < 24" | "24 \<le> n" "n < 32"
    by fastforce
  then show "bit (sample32 (word_of_int v) (word_of_int (v div 256))
                   (word_of_int (v div 65536)) (word_of_int (v div 16777216))) n
      = bit (word_of_int v :: int32) n"
    by cases (auto simp add: sample32_bits byte_bits)
qed

lemma sample24_enc:
  assumes "- (2 ^ 23) \<le> v" "v < 2 ^ 23"
  shows "sample24 (word_of_int v) (word_of_int (v div 256)) (word_of_int (v div 65536))
           = word_of_int v"
proof (rule bit_word_eqI)
  fix n :: nat
  assume "n < LENGTH(32)"
  then consider "n < 8" | "8 \<le> n" "n < 16" | "16 \<le> n" "n < 24" | "24 \<le> n" "n < 32"
    by fastforce
  moreover
  have v: "signed_take_bit 23 v = v" using assms by (simp add: signed_take_bit_int_eq_self)
  have hi: "bit v m \<longleftrightarrow> bit v 23" if "24 \<le> m" for m
    using that bit_signed_take_bit_iff [of 23 v m] unfolding v by (simp add: min_def)
  ultimately
  show "bit (sample24 (word_of_int v) (word_of_int (v div 256)) (word_of_int (v div 65536))) n
      = bit (word_of_int v :: int32) n"
    by cases (auto simp add: sample24_bits byte_bits hi)
qed

lemma sint_int16: "- (2 ^ 15) \<le> v \<Longrightarrow> v < 2 ^ 15 \<Longrightarrow> sint (word_of_int v :: int16) = v"
  using signed_take_bit_int_eq_self [of 15 v] by (simp only: sint_sbintrunc') simp

lemma sint_int32: "- (2 ^ 31) \<le> v \<Longrightarrow> v < 2 ^ 31 \<Longrightarrow> sint (word_of_int v :: int32) = v"
  using signed_take_bit_int_eq_self [of 31 v] by (simp only: sint_sbintrunc') simp

lemma upt2: "[0..<2] = [0, 1::nat]"
  by (simp add: upt_conv_Cons)

lemma upt3: "[0..<3] = [0, 1, 2::nat]"
  by (simp add: upt_conv_Cons)

lemma upt4: "[0..<4] = [0, 1, 2, 3::nat]"
  by (simp add: upt_conv_Cons)

lemma encode_le_2: "encode_le 2 v = [word_of_int v, word_of_int (v div 256)]"
  by (simp add: encode_le_def upt2)

lemma encode_le_3:
  "encode_le 3 v = [word_of_int v, word_of_int (v div 256), word_of_int (v div 65536)]"
  by (simp add: encode_le_def upt3)

lemma encode_le_4:
  "encode_le 4 v = [word_of_int v, word_of_int (v div 256), word_of_int (v div 65536),
                    word_of_int (v div 16777216)]"
  by (simp add: encode_le_def upt4)

subsection \<open>The loops\<close>

lemma take_Suc_update: "i < length d \<Longrightarrow> take (Suc i) (d[i := x]) = take i d @ [x]"
  by (simp add: take_Suc_conv_app_nth)

lemma convert16_loop_eq:
  "length d = len \<Longrightarrow> len * 2 \<le> length sample \<Longrightarrow> i \<le> len \<Longrightarrow>
   convert16_loop sample len i d = Inr (take i d @ map (decode16 sample) [i..<len])"
proof (induction "len - i" arbitrary: i d)
  case 0
  then show ?case by (subst convert16_loop.simps) simp
next
  case (Suc n)
  then have i: "i < len" by simp
  let ?x = "decode16 sample i"
  have rec: "convert16_loop sample len (i + 1) (d[i := ?x])
      = Inr (take (i + 1) (d[i := ?x]) @ map (decode16 sample) [i + 1..<len])"
    using Suc i by (intro Suc.hyps(1)) simp_all
  have "convert16_loop sample len i d = convert16_loop sample len (i + 1) (d[i := ?x])"
    using i Suc.prems by (subst convert16_loop.simps) (simp add: index_def store_def decode16_def)
  also note rec
  finally show ?case using i Suc.prems by (simp add: take_Suc_update upt_conv_Cons)
qed

lemma convert24_loop_eq:
  "length d = len \<Longrightarrow> len * 3 \<le> length sample \<Longrightarrow> i \<le> len \<Longrightarrow>
   convert24_loop sample len i d = Inr (take i d @ map (decode24 sample) [i..<len])"
proof (induction "len - i" arbitrary: i d)
  case 0
  then show ?case by (subst convert24_loop.simps) simp
next
  case (Suc n)
  then have i: "i < len" by simp
  let ?x = "decode24 sample i"
  have rec: "convert24_loop sample len (i + 1) (d[i := ?x])
      = Inr (take (i + 1) (d[i := ?x]) @ map (decode24 sample) [i + 1..<len])"
    using Suc i by (intro Suc.hyps(1)) simp_all
  have "convert24_loop sample len i d = convert24_loop sample len (i + 1) (d[i := ?x])"
    using i Suc.prems by (subst convert24_loop.simps) (simp add: index_def store_def decode24_def)
  also note rec
  finally show ?case using i Suc.prems by (simp add: take_Suc_update upt_conv_Cons)
qed

lemma convert32_loop_eq:
  "length d = len \<Longrightarrow> len * 4 \<le> length sample \<Longrightarrow> i \<le> len \<Longrightarrow>
   convert32_loop sample len i d = Inr (take i d @ map (decode32 sample) [i..<len])"
proof (induction "len - i" arbitrary: i d)
  case 0
  then show ?case by (subst convert32_loop.simps) simp
next
  case (Suc n)
  then have i: "i < len" by simp
  let ?x = "decode32 sample i"
  have rec: "convert32_loop sample len (i + 1) (d[i := ?x])
      = Inr (take (i + 1) (d[i := ?x]) @ map (decode32 sample) [i + 1..<len])"
    using Suc i by (intro Suc.hyps(1)) simp_all
  have "convert32_loop sample len i d = convert32_loop sample len (i + 1) (d[i := ?x])"
    using i Suc.prems by (subst convert32_loop.simps) (simp add: index_def store_def decode32_def)
  also note rec
  finally show ?case using i Suc.prems by (simp add: take_Suc_update upt_conv_Cons)
qed

lemma div_times_le: "(n::nat) div k * k \<le> n"
  by simp

lemma pool_Get_length:
  "pool_ok bs (Some p) \<Longrightarrow> length (fst (pool_Get p)) = bs div 2"
  by (auto simp add: pool_ok_def pool_Get_def split: list.splits)

lemma convert16BitToFloat32_eq:
  assumes "pool_ok bs pool"
  shows "\<exists>pool'. convert16BitToFloat32 bs pool sample
           = Inr (map (decode16 sample) [0..<length sample div 2], pool')"
proof (cases "\<exists>p. pool = Some p \<and> length sample div 2 = bs div 2")
  case True
  then obtain p where p: "pool = Some p" "length sample div 2 = bs div 2" by blast
  obtain b p' where g: "pool_Get p = (b, p')" by (cases "pool_Get p")
  have "length b = length sample div 2"
    using pool_Get_length [of bs p] assms p g by simp
  then have "convert16_loop sample (length sample div 2) 0 b
      = Inr (map (decode16 sample) [0..<length sample div 2])"
    using convert16_loop_eq [of b "length sample div 2" sample 0] by simp
  then show ?thesis
    using p g by (simp add: convert16BitToFloat32_def)
next
  case False
  have "convert16_loop sample (length sample div 2) 0 (replicate (length sample div 2) 0)
      = Inr (map (decode16 sample) [0..<length sample div 2])"
    using convert16_loop_eq [of "replicate (length sample div 2) 0" "length sample div 2" sample 0]
    by simp
  then show ?thesis
    using False by (cases pool) (auto simp add: convert16BitToFloat32_def)
qed

lemma convert24BitToFloat32_eq:
  "convert24BitToFloat32 sample = Inr (map (decode24 sample) [0..<length sample div 3])"
  using convert24_loop_eq [of "replicate (length sample div 3) 0" "length sample div 3" sample 0]
  by (simp add: convert24BitToFloat32_def)

lemma convert32BitToFloat32_eq:
  "convert32BitToFloat32 sample = Inr (map (decode32 sample) [0..<length sample div 4])"
  using convert32_loop_eq [of "replicate (length sample div 4) 0" "length sample div 4" sample 0]
  by (simp add: convert32BitToFloat32_def)

lemma Convert16:
  "pool_ok bs pool \<Longrightarrow> \<exists>pool'. ConvertToFloat32 bs pool sample 16
      = Inr ([map (decode16 sample) [0..<length sample div 2]], pool')"
  using convert16BitToFloat32_eq [of bs pool sample]
  by (auto simp add: ConvertToFloat32_def)

lemma Convert24:
  "ConvertToFloat32 bs pool sample 24
      = Inr ([map (decode24 sample) [0..<length sample div 3]], pool)"
  by (simp add: ConvertToFloat32_def convert24BitToFloat32_eq)

lemma Convert32:
  "ConvertToFloat32 bs pool sample 32
      = Inr ([map (decode32 sample) [0..<length sample div 4]], pool)"
  by (simp add: ConvertToFloat32_def convert32BitToFloat32_eq)

section \<open>Claims about the conversion\<close>

lemma pool_ok_None: "pool_ok bs None"
  by (simp add: pool_ok_def)

lemma bitDepth_cases:
  "bitDepth \<in> {16, 24, 32} \<Longrightarrow> bitDepth = (16::int) \<or> bitDepth = 24 \<or> bitDepth = 32"
  by auto

text \<open>
  C10. For every bit depth that \<open>ConvertToFloat32\<close> accepts (16, 24 or 32) and every byte
  slice, the call returns a slice of slices with exactly one element, a single channel;
  no channel count enters the conversion.
\<close>

theorem ConvertToFloat32_single_channel:
  assumes "pool_ok bs pool" and "bitDepth \<in> {16, 24, 32}"
  shows "\<exists>channel pool'. ConvertToFloat32 bs pool sample bitDepth = Inr ([channel], pool')"
  using bitDepth_cases [OF assms(2)] Convert16 [OF assms(1), of sample]
    Convert24 [of bs pool sample] Convert32 [of bs pool sample]
  by auto

theorem ConvertToFloat32_single_channel_witness:
  "pool_ok 4 None \<and> (16::int) \<in> {16, 24, 32} \<and>
   (\<exists>channel pool'. ConvertToFloat32 4 None [1, 2, 3, 4, 5, 6] 16 = Inr ([channel], pool'))"
  using ConvertToFloat32_single_channel [of 4 None 16 "[1, 2, 3, 4, 5, 6]"]
  by (simp add: pool_ok_def)

subsection \<open>Trailing bytes\<close>

lemma decode16_take: "k * 2 + 1 < n \<Longrightarrow> decode16 (take n sample) k = decode16 sample k"
  by (simp add: decode16_def)

lemma decode24_take: "k * 3 + 2 < n \<Longrightarrow> decode24 (take n sample) k = decode24 sample k"
  by (simp add: decode24_def)

lemma decode32_take: "k * 4 + 3 < n \<Longrightarrow> decode32 (take n sample) k = decode32 sample k"
  by (simp add: decode32_def)

lemma length_take_whole: "length (take (length xs div k * k) xs) = length xs div k * k"
  by simp

lemma div_take_whole: "0 < k \<Longrightarrow> length (take (length xs div k * k) xs) div k = length xs div k"
  by simp

lemma map_decode16_take:
  "map (decode16 (take (length sample div 2 * 2) sample)) [0..<length sample div 2]
     = map (decode16 sample) [0..<length sample div 2]"
  by (rule map_cong) (auto intro!: decode16_take)

lemma map_decode24_take:
  "map (decode24 (take (length sample div 3 * 3) sample)) [0..<length sample div 3]
     = map (decode24 sample) [0..<length sample div 3]"
  by (rule map_cong) (auto intro!: decode24_take)

lemma map_decode32_take:
  "map (decode32 (take (length sample div 4 * 4) sample)) [0..<length sample div 4]
     = map (decode32 sample) [0..<length sample div 4]"
  by (rule map_cong) (auto intro!: decode32_take)

text \<open>The pool state after a 16-bit conversion depends only on the number of samples.\<close>

lemma convert16_pool:
  "convert16BitToFloat32 bs pool sample = Inr (d, pool') \<Longrightarrow>
   length sample' div 2 = length sample div 2 \<Longrightarrow> pool_ok bs pool \<Longrightarrow>
   \<exists>d'. convert16BitToFloat32 bs pool sample' = Inr (d', pool')"
  using convert16BitToFloat32_eq [of bs pool sample']
  by (auto simp add: convert16BitToFloat32_def Let_def split: option.splits if_splits prod.splits sum.splits)

lemma Convert16_take:
  assumes "pool_ok bs pool"
  shows "ConvertToFloat32 bs pool (take (length sample div 2 * 2) sample) 16
           = ConvertToFloat32 bs pool sample 16"
proof -
  let ?t = "take (length sample div 2 * 2) sample"
  have len: "length ?t div 2 = length sample div 2" by simp
  obtain pool' where a: "convert16BitToFloat32 bs pool sample
      = Inr (map (decode16 sample) [0..<length sample div 2], pool')"
    using convert16BitToFloat32_eq [OF assms] by blast
  obtain d' where b: "convert16BitToFloat32 bs pool ?t = Inr (d', pool')"
    using convert16_pool [OF a len assms] by blast
  obtain pool'' where c: "convert16BitToFloat32 bs pool ?t
      = Inr (map (decode16 ?t) [0..<length ?t div 2], pool'')"
    using convert16BitToFloat32_eq [OF assms] by blast
  have "d' = map (decode16 sample) [0..<length sample div 2]"
    using b c by (simp only: len map_decode16_take) simp
  then show ?thesis using a b by (simp add: ConvertToFloat32_def)
qed

lemma Convert24_take:
  "ConvertToFloat32 bs pool (take (length sample div 3 * 3) sample) 24
     = ConvertToFloat32 bs pool sample 24"
  by (simp only: Convert24 div_take_whole map_decode24_take)

lemma Convert32_take:
  "ConvertToFloat32 bs pool (take (length sample div 4 * 4) sample) 32
     = ConvertToFloat32 bs pool sample 32"
  by (simp only: Convert32 div_take_whole map_decode32_take)

lemma decode_16: "decode 16 sample = decode16 sample"
  by (rule ext) (simp add: decode_def)

lemma decode_24: "decode 24 sample = decode24 sample"
  by (rule ext) (simp add: decode_def)

lemma decode_32: "decode 32 sample = decode32 sample"
  by (rule ext) (simp add: decode_def)

text \<open>
  C9. For every byte slice (in particular one whose length is not a multiple of the
  sample size of 2, 3 or 4 bytes) and every bit depth in 16, 24, 32,
  \<open>ConvertToFloat32\<close> returns without an out-of-range access. The result is one channel
  of exactly \<open>len(sample) div bytesPerSample\<close> samples; sample \<open>k\<close> of it is the
  conversion of the bytes \<open>k * bytesPerSample\<close> to \<open>k * bytesPerSample + bytesPerSample - 1\<close>
  of the input; and the result is the same as for the slice cut down to whole samples, so
  the trailing bytes are ignored.
\<close>

theorem ConvertToFloat32_trailing_bytes:
  assumes "pool_ok bs pool" and "bitDepth \<in> {16, 24, 32}"
  shows "\<exists>channel pool'.
           ConvertToFloat32 bs pool sample bitDepth = Inr ([channel], pool') \<and>
           length channel = length sample div bytesPerSample bitDepth \<and>
           channel = map (decode bitDepth sample)
                       [0..<length sample div bytesPerSample bitDepth] \<and>
           ConvertToFloat32 bs pool
               (take (length sample div bytesPerSample bitDepth * bytesPerSample bitDepth) sample)
               bitDepth
             = ConvertToFloat32 bs pool sample bitDepth"
proof -
  consider "bitDepth = 16" | "bitDepth = 24" | "bitDepth = 32"
    using bitDepth_cases [OF assms(2)] by blast
  then show ?thesis
  proof cases
    case 1
    obtain pool' where "ConvertToFloat32 bs pool sample 16
        = Inr ([map (decode16 sample) [0..<length sample div 2]], pool')"
      using Convert16 [OF assms(1)] by blast
    then show ?thesis
      using 1 Convert16_take [OF assms(1), of sample]
      by (simp add: bytesPerSample_def decode_16)
  next
    case 2
    then show ?thesis
      using Convert24 [of bs pool sample] Convert24_take [of bs pool sample]
      by (simp add: bytesPerSample_def decode_24)
  next
    case 3
    then show ?thesis
      using Convert32 [of bs pool sample] Convert32_take [of bs pool sample]
      by (simp add: bytesPerSample_def decode_32)
  qed
qed

lemma sample24_123: "sint (sample24 1 2 3) = 197121"
  by (simp add: sample24_def)

theorem ConvertToFloat32_trailing_bytes_witness:
  "pool_ok 4 None \<and> (24::int) \<in> {16, 24, 32} \<and>
   ConvertToFloat32 4 None [1, 2, 3, 4, 5] 24 = Inr ([[197121 / 8388608]], None) \<and>
   ConvertToFloat32 4 None (take 3 [1, 2, 3, 4, 5]) 24
     = ConvertToFloat32 4 None [1, 2, 3, 4, 5] 24"
proof -
  have d: "decode24 [1, 2, 3, 4, 5] 0 = 197121 / 8388608"
    by (simp add: decode24_def sample24_123 float32_of_int_exact)
  have c: "ConvertToFloat32 4 None [1, 2, 3, 4, 5] 24 = Inr ([[197121 / 8388608]], None)"
    by (simp add: Convert24 d)
  show ?thesis
    using ConvertToFloat32_trailing_bytes [of 4 None 24 "[1, 2, 3, 4, 5]"] c
    by (simp add: pool_ok_def bytesPerSample_def)
qed

lemma Convert_unsupported:
  "bitDepth \<notin> {16, 24, 32} \<Longrightarrow>
   ConvertToFloat32 bs pool sample bitDepth = Inl (UnsupportedBitDepth bitDepth)"
  by (simp add: ConvertToFloat32_def)

text \<open>
  C3. \<open>ConvertToFloat32\<close> succeeds exactly for the bit depths 16, 24 and 32. For any
  other bit depth it returns the validation error and no slice at all, and
  \<open>ProcessData\<close> then returns that error, wrapped, without consulting the predictor and
  with queue, pool and log as they were: only this window fails.
\<close>

theorem ConvertToFloat32_supported_depths:
  assumes "pool_ok bs pool"
  shows "((\<exists>r. ConvertToFloat32 bs pool sample bitDepth = Inr r) \<longleftrightarrow> bitDepth \<in> {16, 24, 32}) \<and>
         (bitDepth \<notin> {16, 24, 32} \<longrightarrow>
            ConvertToFloat32 bs pool sample bitDepth = Inl (UnsupportedBitDepth bitDepth)) \<and>
         (conf_BitDepth conf \<notin> {16, 24, 32} \<longrightarrow>
            ProcessData conf Predict elapsedTime st data startTime source
              = (Some (ConvertFailed (conf_BitDepth conf)
                         (UnsupportedBitDepth (conf_BitDepth conf))), st))"
proof (intro conjI impI)
  show "(\<exists>r. ConvertToFloat32 bs pool sample bitDepth = Inr r) \<longleftrightarrow> bitDepth \<in> {16, 24, 32}"
  proof (cases "bitDepth \<in> {16, 24, 32}")
    case True
    then show ?thesis
      using bitDepth_cases [OF True] Convert16 [OF assms, of sample]
        Convert24 [of bs pool sample] Convert32 [of bs pool sample]
      by auto
  next
    case False
    then show ?thesis by (simp add: Convert_unsupported)
  qed
next
  assume "bitDepth \<notin> {16, 24, 32}"
  then show "ConvertToFloat32 bs pool sample bitDepth = Inl (UnsupportedBitDepth bitDepth)"
    by (rule Convert_unsupported)
next
  assume "conf_BitDepth conf \<notin> {16, 24, 32}"
  then show "ProcessData conf Predict elapsedTime st data startTime source
      = (Some (ConvertFailed (conf_BitDepth conf) (UnsupportedBitDepth (conf_BitDepth conf))), st)"
    by (simp add: ProcessData_def Convert_unsupported)
qed

theorem ConvertToFloat32_supported_depths_witness:
  "pool_ok 4 None \<and>
   \<not> (\<exists>r. ConvertToFloat32 4 None [1, 2, 3, 4] 8 = Inr r) \<and>
   ConvertToFloat32 4 None [1, 2, 3, 4] 8 = Inl (UnsupportedBitDepth 8) \<and>
   ProcessData \<lparr>conf_BufferSize = 4, conf_BitDepth = 8, conf_Debug = False,
                 conf_overlapDuration = 0, queue_capacity = 100\<rparr>
       (\<lambda>x. Inr []) 5 initial_state [1, 2, 3, 4] 0 ''src''
     = (Some (ConvertFailed 8 (UnsupportedBitDepth 8)), initial_state)"
  using ConvertToFloat32_supported_depths [of 4 None "[1, 2, 3, 4]" 8
      "\<lparr>conf_BufferSize = 4, conf_BitDepth = 8, conf_Debug = False,
        conf_overlapDuration = 0, queue_capacity = 100\<rparr>"
      "\<lambda>x. Inr []" 5 initial_state "[1, 2, 3, 4]" 0 "''src''"]
  by (simp add: pool_ok_def)

subsection \<open>Range of the converted samples\<close>

lemma float32_quotient_range:
  fixes s m :: int
  assumes "- m \<le> s" "s < m" "m < 2 ^ 24"
  shows "- 1 \<le> float32_of_int s / real_of_int m \<and> float32_of_int s / real_of_int m < 1"
proof -
  have "\<bar>s\<bar> < 2 ^ 24" using assms by (simp add: abs_less_iff)
  then have e: "float32_of_int s = real_of_int s" by (rule float32_of_int_exact)
  have m: "0 < real_of_int m" using assms by simp
  have "- real_of_int m \<le> real_of_int s" "real_of_int s < real_of_int m"
    using assms by linarith+
  then show ?thesis using m unfolding e by (simp add: pos_le_divide_eq pos_divide_less_eq)
qed

lemma float32_quotient_range32:
  fixes s :: int
  assumes "- (2 ^ 31) \<le> s" "s < 2 ^ 31"
  shows "- 1 \<le> float32_of_int s / 2147483648 \<and> float32_of_int s / 2147483648 \<le> 1"
proof -
  have "\<bar>s\<bar> \<le> 2 ^ 31" using assms by (simp add: abs_le_iff)
  then have "\<bar>float32_of_int s\<bar> \<le> 2 ^ 31" by (rule float32_of_int_bound)
  then show ?thesis by (simp add: abs_le_iff)
qed

lemma decode16_range: "- 1 \<le> decode16 sample k \<and> decode16 sample k < 1"
  using float32_quotient_range [of 32768 "sint (sample16 (sample ! (k * 2)) (sample ! (k * 2 + 1)))"]
    sample16_range [of "sample ! (k * 2)" "sample ! (k * 2 + 1)"]
  by (simp add: decode16_def)

lemma decode24_range: "- 1 \<le> decode24 sample k \<and> decode24 sample k < 1"
  using float32_quotient_range [of 8388608
      "sint (sample24 (sample ! (k * 3)) (sample ! (k * 3 + 1)) (sample ! (k * 3 + 2)))"]
    sample24_range [of "sample ! (k * 3)" "sample ! (k * 3 + 1)" "sample ! (k * 3 + 2)"]
  by (simp add: decode24_def)

lemma decode32_range: "- 1 \<le> decode32 sample k \<and> decode32 sample k \<le> 1"
  using float32_quotient_range32
      [of "sint (sample32 (sample ! (k * 4)) (sample ! (k * 4 + 1))
                          (sample ! (k * 4 + 2)) (sample ! (k * 4 + 3)))"]
    sample32_range [of "sample ! (k * 4)" "sample ! (k * 4 + 1)" "sample ! (k * 4 + 2)"
                       "sample ! (k * 4 + 3)"]
  by (simp add: decode32_def)

text \<open>
  C5 as stated fails on the 32-bit path: the sample \<open>0x7FFFFFFF\<close> converts to the
  \<open>float32\<close> value \<open>2^31\<close> and the quotient is exactly 1.
\<close>

theorem ConvertToFloat32_range_counterexample:
  "ConvertToFloat32 1024 None [0xFF, 0xFF, 0xFF, 0x7F] 32 = Inr ([[1]], None)"
  by (simp add: ConvertToFloat32_def convert32BitToFloat32_def convert32_loop.simps
      index_def store_def sample32_def float32_of_int_def round24_def excess_bits.simps Let_def)

text \<open>
  C5, amended. For every byte slice and every bit depth in 16, 24, 32 the conversion
  returns one channel whose samples all lie in the closed interval from -1 to 1; for the
  depths 16 and 24 they are strictly below 1.
\<close>

theorem ConvertToFloat32_range:
  assumes "pool_ok bs pool" and "bitDepth \<in> {16, 24, 32}"
  shows "\<exists>channel pool'.
           ConvertToFloat32 bs pool sample bitDepth = Inr ([channel], pool') \<and>
           (\<forall>x \<in> set channel. - 1 \<le> x \<and> x \<le> 1 \<and> (bitDepth \<noteq> 32 \<longrightarrow> x < 1))"
proof -
  consider "bitDepth = 16" | "bitDepth = 24" | "bitDepth = 32"
    using bitDepth_cases [OF assms(2)] by blast
  then show ?thesis
  proof cases
    case 1
    obtain pool' where "ConvertToFloat32 bs pool sample 16
        = Inr ([map (decode16 sample) [0..<length sample div 2]], pool')"
      using Convert16 [OF assms(1)] by blast
    moreover have "\<forall>x \<in> set (map (decode16 sample) [0..<length sample div 2]).
        - 1 \<le> x \<and> x \<le> 1 \<and> x < 1"
      using decode16_range [of sample] by (auto simp add: less_imp_le)
    ultimately show ?thesis using 1 by auto
  next
    case 2
    have "\<forall>x \<in> set (map (decode24 sample) [0..<length sample div 3]).
        - 1 \<le> x \<and> x \<le> 1 \<and> x < 1"
      using decode24_range [of sample] by (auto simp add: less_imp_le)
    then show ?thesis using 2 Convert24 [of bs pool sample] by auto
  next
    case 3
    have "\<forall>x \<in> set (map (decode32 sample) [0..<length sample div 4]). - 1 \<le> x \<and> x \<le> 1"
      using decode32_range [of sample] by auto
    then show ?thesis using 3 Convert32 [of bs pool sample] by auto
  qed
qed

theorem ConvertToFloat32_range_witness:
  "pool_ok 4 None \<and> (16::int) \<in> {16, 24, 32} \<and>
   (\<exists>channel pool'.
       ConvertToFloat32 4 None [0xFF, 0x7F, 0x00, 0x80] 16 = Inr ([channel], pool') \<and>
       (\<forall>x \<in> set channel. - 1 \<le> x \<and> x \<le> 1 \<and> x < 1))"
  using ConvertToFloat32_range [of 4 None 16 "[0xFF, 0x7F, 0x00, 0x80]"]
  by (simp add: pool_ok_def)

subsection \<open>Encoding a sample and converting it back\<close>

lemma decode16_encode:
  assumes "- (2 ^ 15) \<le> v" "v < 2 ^ 15"
  shows "decode16 (encode_le 2 v) 0 = real_of_int v / 32768"
proof -
  have "sint (sample16 (word_of_int v) (word_of_int (v div 256))) = v"
    using assms by (simp only: sample16_enc sint_int16)
  moreover have "\<bar>v\<bar> < 2 ^ 24" using assms by (simp add: abs_less_iff)
  ultimately show ?thesis
    by (simp add: decode16_def encode_le_2 float32_of_int_exact)
qed

lemma decode24_encode:
  assumes "- (2 ^ 23) \<le> v" "v < 2 ^ 23"
  shows "decode24 (encode_le 3 v) 0 = real_of_int v / 8388608"
proof -
  have "sample24 (word_of_int v) (word_of_int (v div 256)) (word_of_int (v div 65536))
      = word_of_int v"
    using assms by (rule sample24_enc)
  moreover have "sint (word_of_int v :: int32) = v"
    using assms by (intro sint_int32) simp_all
  ultimately have "sint (sample24 (word_of_int v) (word_of_int (v div 256))
      (word_of_int (v div 65536))) = v" by simp
  moreover have "\<bar>v\<bar> < 2 ^ 24" using assms by (simp add: abs_less_iff)
  ultimately show ?thesis
    by (simp add: decode24_def encode_le_3 float32_of_int_exact)
qed

lemma decode32_encode:
  assumes "- (2 ^ 31) \<le> v" "v < 2 ^ 31"
  shows "decode32 (encode_le 4 v) 0 = float32_of_int v / 2147483648"
proof -
  have "sint (sample32 (word_of_int v) (word_of_int (v div 256)) (word_of_int (v div 65536))
      (word_of_int (v div 16777216))) = v"
    using assms by (simp only: sample32_enc sint_int32)
  then show ?thesis
    by (simp add: decode32_def encode_le_4)
qed

lemma float32_quotient_error32:
  assumes "- (2 ^ 31) \<le> v" "v < 2 ^ 31"
  shows "\<bar>float32_of_int v / 2147483648 - real_of_int v / 2147483648\<bar> \<le> 1 / 2 ^ 25"
proof -
  have "\<bar>v\<bar> \<le> 2 ^ 31" using assms by (simp add: abs_le_iff)
  then have "\<bar>float32_of_int v - real_of_int v\<bar> \<le> 64" by (rule float32_of_int_error)
  moreover have "float32_of_int v / 2147483648 - real_of_int v / 2147483648
      = (float32_of_int v - real_of_int v) / 2147483648"
    by (simp add: diff_divide_distrib)
  ultimately show ?thesis by (simp only: abs_divide) simp
qed

lemma length_encode_le: "length (encode_le n v) = n"
  by (simp add: encode_le_def)

lemma upt_0_1: "[0..<Suc 0] = [0]"
  by simp

text \<open>
  C2. For every bit depth in 16, 24, 32 and every signed sample value \<open>v\<close> of that depth
  (\<open>-maxMagnitude \<le> v < maxMagnitude\<close>, with \<open>maxMagnitude\<close> 32768, 8388608 and
  2147483648), converting the little-endian two's-complement bytes of \<open>v\<close> yields the one
  sample \<open>x\<close> with \<open>x = v / maxMagnitude\<close> for the depths 16 and 24 (so negative 24-bit
  samples are sign-extended) and \<open>|x - v / maxMagnitude| \<le> 2^-25\<close> for the depth 32,
  the rounding of \<open>float32\<close>.
\<close>

theorem ConvertToFloat32_roundtrip:
  assumes "pool_ok bs pool" and "bitDepth \<in> {16, 24, 32}"
    and "- maxMagnitude bitDepth \<le> v" and "v < maxMagnitude bitDepth"
  shows "\<exists>x pool'.
           ConvertToFloat32 bs pool (encode_le (bytesPerSample bitDepth) v) bitDepth
             = Inr ([[x]], pool') \<and>
           \<bar>x - real_of_int v / real_of_int (maxMagnitude bitDepth)\<bar>
             \<le> (if bitDepth = 32 then 1 / 2 ^ 25 else 0)"
proof -
  consider "bitDepth = 16" | "bitDepth = 24" | "bitDepth = 32"
    using bitDepth_cases [OF assms(2)] by blast
  then show ?thesis
  proof cases
    case 1
    have v: "- (2 ^ 15) \<le> v" "v < 2 ^ 15"
      using assms(3,4) 1 by (simp_all add: maxMagnitude_def)
    obtain pool' where "ConvertToFloat32 bs pool (encode_le 2 v) 16
        = Inr ([map (decode16 (encode_le 2 v)) [0..<length (encode_le 2 v) div 2]], pool')"
      using Convert16 [OF assms(1)] by blast
    then have "ConvertToFloat32 bs pool (encode_le 2 v) 16
        = Inr ([[real_of_int v / 32768]], pool')"
      by (simp add: length_encode_le decode16_encode [OF v])
    then show ?thesis
      using 1
      by (intro exI [of _ "real_of_int v / 32768"] exI [of _ pool'])
        (simp add: bytesPerSample_def maxMagnitude_def)
  next
    case 2
    have v: "- (2 ^ 23) \<le> v" "v < 2 ^ 23"
      using assms(3,4) 2 by (simp_all add: maxMagnitude_def)
    have "ConvertToFloat32 bs pool (encode_le 3 v) 24
        = Inr ([map (decode24 (encode_le 3 v)) [0..<length (encode_le 3 v) div 3]], pool)"
      by (rule Convert24)
    then have "ConvertToFloat32 bs pool (encode_le 3 v) 24
        = Inr ([[real_of_int v / 8388608]], pool)"
      by (simp add: length_encode_le decode24_encode [OF v])
    then show ?thesis
      using 2
      by (intro exI [of _ "real_of_int v / 8388608"] exI [of _ pool])
        (simp add: bytesPerSample_def maxMagnitude_def)
  next
    case 3
    have v: "- (2 ^ 31) \<le> v" "v < 2 ^ 31"
      using assms(3,4) 3 by (simp_all add: maxMagnitude_def)
    have "ConvertToFloat32 bs pool (encode_le 4 v) 32
        = Inr ([map (decode32 (encode_le 4 v)) [0..<length (encode_le 4 v) div 4]], pool)"
      by (rule Convert32)
    then have "ConvertToFloat32 bs pool (encode_le 4 v) 32
        = Inr ([[float32_of_int v / 2147483648]], pool)"
      by (simp add: length_encode_le decode32_encode [OF v])
    then show ?thesis
      using 3 float32_quotient_error32 [OF v]
      by (intro exI [of _ "float32_of_int v / 2147483648"] exI [of _ pool])
        (simp add: bytesPerSample_def maxMagnitude_def)
  qed
qed

theorem ConvertToFloat32_roundtrip_witness:
  "pool_ok 4 None \<and> (24::int) \<in> {16, 24, 32} \<and>
   - maxMagnitude 24 \<le> - 8388608 \<and> - 8388608 < maxMagnitude 24 \<and>
   (\<exists>x pool'.
       ConvertToFloat32 4 None (encode_le 3 (- 8388608)) 24 = Inr ([[x]], pool') \<and>
       \<bar>x - (- 1)\<bar> \<le> 0)"
  using ConvertToFloat32_roundtrip [of 4 None 24 "- 8388608"]
  by (simp add: pool_ok_def maxMagnitude_def bytesPerSample_def)

section \<open>Claims about the results queue\<close>

lemma send_results_queue:
  "ResultsQueue (send_results c m st)
     = (if length (ResultsQueue st) < c then ResultsQueue st @ [m] else ResultsQueue st)"
  by (simp add: send_results_def log_line_def)

lemma send_results_drops:
  "drops (send_results c m st) = drops st + (if length (ResultsQueue st) < c then 0 else 1)"
  by (simp add: send_results_def log_line_def drops_def)

lemma feed_Cons: "feed c (m # ms) st = feed c ms (send_results c m st)"
  by (simp add: feed_def)

lemma feed_queue:
  "length (ResultsQueue st) \<le> c \<Longrightarrow>
   ResultsQueue (feed c ms st) = ResultsQueue st @ take (c - length (ResultsQueue st)) ms"
proof (induction ms arbitrary: st)
  case Nil
  then show ?case by (simp add: feed_def)
next
  case (Cons m ms)
  show ?case
  proof (cases "length (ResultsQueue st) < c")
    case True
    then have "length (ResultsQueue (send_results c m st)) \<le> c"
      by (simp add: send_results_queue)
    from Cons.IH [OF this] True show ?thesis
      by (simp add: feed_Cons send_results_queue take_Cons' Suc_diff_Suc)
  next
    case False
    then have "length (ResultsQueue (send_results c m st)) \<le> c"
      using Cons.prems by (simp add: send_results_queue)
    from Cons.IH [OF this] False Cons.prems show ?thesis
      by (simp add: feed_Cons send_results_queue)
  qed
qed

lemma feed_drops:
  "length (ResultsQueue st) \<le> c \<Longrightarrow>
   drops (feed c ms st) = drops st + (length ms - (c - length (ResultsQueue st)))"
proof (induction ms arbitrary: st)
  case Nil
  then show ?case by (simp add: feed_def)
next
  case (Cons m ms)
  show ?case
  proof (cases "length (ResultsQueue st) < c")
    case True
    then have "length (ResultsQueue (send_results c m st)) \<le> c"
      by (simp add: send_results_queue)
    from Cons.IH [OF this] True show ?thesis
      by (simp add: feed_Cons send_results_queue send_results_drops)
  next
    case False
    then have "length (ResultsQueue (send_results c m st)) \<le> c"
      using Cons.prems by (simp add: send_results_queue)
    from Cons.IH [OF this] False Cons.prems show ?thesis
      by (simp add: feed_Cons send_results_queue send_results_drops)
  qed
qed

lemma debug_print_queue [simp]: "ResultsQueue (debug_print results st) = ResultsQueue st"
  by (simp add: debug_print_def Let_def)

lemma debug_print_drops [simp]: "drops (debug_print results st) = drops st"
  by (simp add: debug_print_def Let_def drops_def)

lemma log_warning_queue [simp]:
  "ResultsQueue (log_line (LogProcessingTimeWarning a b src) st) = ResultsQueue st"
  by (simp add: log_line_def)

lemma log_warning_drops [simp]:
  "drops (log_line (LogProcessingTimeWarning a b src) st) = drops st"
  by (simp add: log_line_def drops_def)

lemma pool_update_drops [simp]: "drops (st\<lparr>float32Pool := p\<rparr>) = drops st"
  by (simp add: drops_def)

text \<open>When \<open>ProcessData\<close> returns nil it has made exactly one enqueue attempt.\<close>

lemma ProcessData_nil:
  assumes "ProcessData conf Predict elapsedTime st data startTime source = (None, st')"
  shows "\<exists>results.
           ResultsQueue st' =
             (if length (ResultsQueue st) < queue_capacity conf
              then ResultsQueue st @
                     [\<lparr>StartTime = startTime, ElapsedTime = elapsedTime, PCMdata = data,
                       Results = results, Source = source\<rparr>]
              else ResultsQueue st) \<and>
           drops st' =
             drops st + (if length (ResultsQueue st) < queue_capacity conf then 0 else 1)"
  using assms
  by (auto simp add: ProcessData_def Let_def send_results_queue send_results_drops
      split: sum.splits prod.splits if_splits)

text \<open>
  C1. An enqueue attempt always returns. With room in the queue the entry is appended
  behind the entries already queued; with a full queue the queue stays as it is, the new
  entry is dropped and one "queue is full" line is logged. \<open>ProcessData\<close> makes exactly
  one such attempt whenever it returns nil. Feeding any entries to the empty queue with
  nothing consuming keeps the first \<open>capacity\<close> of them in order and logs one drop for each
  of the others: 150 entries at capacity 100 leave 100 queued and 50 drops.
\<close>

theorem enqueue_never_blocks:
  "ResultsQueue (send_results c m st)
     = (if length (ResultsQueue st) < c then ResultsQueue st @ [m] else ResultsQueue st) \<and>
   drops (send_results c m st)
     = drops st + (if length (ResultsQueue st) < c then 0 else 1) \<and>
   (ProcessData conf Predict elapsedTime st data startTime source = (None, st') \<longrightarrow>
      (\<exists>results.
         ResultsQueue st' =
           (if length (ResultsQueue st) < queue_capacity conf
            then ResultsQueue st @
                   [\<lparr>StartTime = startTime, ElapsedTime = elapsedTime, PCMdata = data,
                     Results = results, Source = source\<rparr>]
            else ResultsQueue st) \<and>
         drops st' =
           drops st + (if length (ResultsQueue st) < queue_capacity conf then 0 else 1))) \<and>
   ResultsQueue (feed c ms initial_state) = take c ms \<and>
   drops (feed c ms initial_state) = length ms - c \<and>
   (length ms = 150 \<longrightarrow>
      length (ResultsQueue (feed 100 ms initial_state)) = 100 \<and>
      drops (feed 100 ms initial_state) = 50)"
proof -
  have q0: "length (ResultsQueue initial_state) \<le> k" for k
    by (simp add: initial_state_def)
  have a: "ResultsQueue (feed k ms initial_state) = take k ms" for k
    using feed_queue [OF q0, of k ms] by (simp add: initial_state_def)
  have b: "drops (feed k ms initial_state) = length ms - k" for k
    using feed_drops [OF q0, of k ms] by (simp add: initial_state_def drops_def)
  show ?thesis
    using ProcessData_nil [of conf Predict elapsedTime st data startTime source st']
    by (simp add: send_results_queue send_results_drops a b)
qed

theorem enqueue_never_blocks_witness:
  "ProcessData \<lparr>conf_BufferSize = 4, conf_BitDepth = 16, conf_Debug = False,
                 conf_overlapDuration = 0, queue_capacity = 100\<rparr>
       (\<lambda>x. Inr []) 5 initial_state [1, 2] 0 ''src''
     = (None, initial_state\<lparr>ResultsQueue := [sample_message]\<rparr>) \<and>
   length (replicate 150 sample_message) = 150 \<and>
   length (ResultsQueue (feed 100 (replicate 150 sample_message) initial_state)) = 100 \<and>
   drops (feed 100 (replicate 150 sample_message) initial_state) = 50"
proof -
  have p: "ProcessData \<lparr>conf_BufferSize = 4, conf_BitDepth = 16, conf_Debug = False,
                 conf_overlapDuration = 0, queue_capacity = 100\<rparr>
       (\<lambda>x. Inr []) 5 initial_state [1, 2] 0 ''src''
     = (None, initial_state\<lparr>ResultsQueue := [sample_message]\<rparr>)"
    by (simp add: ProcessData_def ConvertToFloat32_def convert16BitToFloat32_def
        convert16_loop.simps index_def store_def initial_state_def send_results_def
        sample_message_def Let_def)
  show ?thesis
    using p enqueue_never_blocks [of 100 sample_message initial_state
        "\<lparr>conf_BufferSize = 4, conf_BitDepth = 16, conf_Debug = False,
          conf_overlapDuration = 0, queue_capacity = 100\<rparr>"
        "\<lambda>x. Inr []" 5 "[1, 2]" 0 "''src''"
        "initial_state\<lparr>ResultsQueue := [sample_message]\<rparr>"
        "replicate 150 sample_message"]
    by simp
qed

section \<open>Claims about the process monitor\<close>

lemma registry_pids_Nil [simp]: "registry_pids [] = []"
  by (simp add: registry_pids_def)

lemma registry_pids_Cons [simp]:
  "registry_pids ((key, p) # repo) = pid_list (known_pid p) @ registry_pids repo"
  by (simp add: registry_pids_def)

lemma keys_are_urls_Nil [simp]: "keys_are_urls []"
  by (simp add: keys_are_urls_def)

lemma lookup_safe_Nil [simp]: "lookup_safe []"
  by (simp add: lookup_safe_def)

lemma keys_are_urls_Cons [simp]:
  "keys_are_urls ((key, p) # repo) \<longleftrightarrow> is_URL key \<and> keys_are_urls repo"
  by (simp add: keys_are_urls_def)

lemma lookup_safe_Cons [simp]:
  "lookup_safe ((key, p) # repo) \<longleftrightarrow> known_pid p \<noteq> Panics \<and> lookup_safe repo"
  by (simp add: lookup_safe_def)

lemma registry_pids_mem:
  "(key, p) \<in> set repo \<Longrightarrow> known_pid p = HasPid pid \<Longrightarrow> pid \<in> set (registry_pids repo)"
  by (induction repo) auto




















section \<open>Claims about the process manager\<close>

text \<open>
  C7. When a first \<open>CreateProcess\<close> call can succeed (the id is not registered, the
  registry has room and the configuration is valid), it does; a second call with the same
  id then returns DuplicateID, and before and after that second call the registry holds
  exactly one entry for the id, the process the first call registered.
\<close>

theorem CreateProcess_duplicate:
  assumes "ID cfg \<notin> set (map fst (processes m))"
    and "int (length (processes m)) < MaxProcesses (manager_config m)"
    and "valid cfg"
  shows "\<exists>p m'.
           CreateProcess valid m cfg = Inr (p, m') \<and>
           CreateProcess valid m' cfg = Inl (DuplicateID (ID cfg)) \<and>
           config p = cfg \<and>
           entries_for m' (ID cfg) = [p] \<and>
           entries_for (apply_op valid (Create cfg) m') (ID cfg) = [p]"
proof -
  let ?p = "newManagedProcess m cfg"
  let ?m' = "m\<lparr>processes := processes m @ [(ID cfg, ?p)]\<rparr>"
  have 1: "CreateProcess valid m cfg = Inr (?p, ?m')"
    using assms by (simp add: CreateProcess_def Let_def)
  have 2: "CreateProcess valid ?m' cfg = Inl (DuplicateID (ID cfg))"
    by (simp add: CreateProcess_def)
  have "filter (\<lambda>e. fst e = ID cfg) (processes m) = []"
    using assms(1) by (force simp add: filter_empty_conv)
  then have 3: "entries_for ?m' (ID cfg) = [?p]"
    by (simp add: entries_for_def)
  have 4: "config ?p = cfg" by (simp add: newManagedProcess_def)
  show ?thesis
    using 1 2 3 4 by (intro exI [of _ ?p] exI [of _ ?m']) simp
qed

theorem CreateProcess_duplicate_witness:
  "ID (test_config ''duplicate-test'') \<notin> set (map fst (processes (NewManager (limit_config 10)))) \<and>
   int (length (processes (NewManager (limit_config 10))))
     < MaxProcesses (manager_config (NewManager (limit_config 10))) \<and>
   accept_all (test_config ''duplicate-test'') \<and>
   (\<exists>p m'.
       CreateProcess accept_all (NewManager (limit_config 10)) (test_config ''duplicate-test'')
         = Inr (p, m') \<and>
       CreateProcess accept_all m' (test_config ''duplicate-test'')
         = Inl (DuplicateID ''duplicate-test'') \<and>
       entries_for m' ''duplicate-test'' = [p])"
proof -
  have a: "ID (test_config ''duplicate-test'')
      \<notin> set (map fst (processes (NewManager (limit_config 10))))"
    by (simp add: NewManager_def)
  have b: "int (length (processes (NewManager (limit_config 10))))
      < MaxProcesses (manager_config (NewManager (limit_config 10)))"
    by (simp add: NewManager_def limit_config_def)
  have c: "accept_all (test_config ''duplicate-test'')"
    by (simp add: accept_all_def)
  have i: "ID (test_config ''duplicate-test'') = ''duplicate-test''"
    by (simp add: test_config_def)
  show ?thesis
    using a b c
      CreateProcess_duplicate [of "test_config ''duplicate-test''" "NewManager (limit_config 10)"
        accept_all, OF a b c]
    unfolding i by blast
qed

subsection \<open>Restart delays\<close>

lemma duration_double: "0 \<le> x \<Longrightarrow> duration_of_float (real_of_int x * 2) = 2 * x"
proof -
  assume x: "0 \<le> x"
  have "real_of_int x * 2 = real_of_int (2 * x)" by simp
  then have "\<lfloor>real_of_int x * 2\<rfloor> = 2 * x" by (simp only: floor_of_int)
  moreover have "0 \<le> real_of_int x * 2" using x by simp
  ultimately show ?thesis by (simp only: duration_of_float_def if_True)
qed

lemma capped_double:
  fixes a c :: int
  assumes "0 \<le> a" "0 \<le> c"
  shows "(if 2 * min a c > c then c else 2 * min a c) = min (2 * a) c"
  using assms by (auto simp add: min_def)

lemma exit_unfold:
  assumes "restartPolicy mp = policy_1_2_30 n" "restartCount mp < n"
  shows "on_unexpected_exit mp
     = (Some (nextDelay mp),
        mp\<lparr>state := Starting, restartCount := restartCount mp + 1,
           nextDelay :=
             (if duration_of_float (real_of_int (nextDelay mp) * 2) > 30 * second
              then 30 * second
              else duration_of_float (real_of_int (nextDelay mp) * 2))\<rparr>)"
  unfolding on_unexpected_exit_def Let_def assms(1)
  using assms(2) by (simp add: policy_1_2_30_def)

lemma exit_gives_up:
  assumes "restartPolicy mp = policy_1_2_30 n" "\<not> restartCount mp < n"
  shows "on_unexpected_exit mp = (None, mp\<lparr>state := Failed\<rparr>)"
  unfolding on_unexpected_exit_def Let_def assms(1)
  using assms(2) by (simp add: policy_1_2_30_def)

lemma next_delay_step:
  "(if duration_of_float (real_of_int (min (2 ^ j * second) (30 * second)) * 2) > 30 * second
    then 30 * second
    else duration_of_float (real_of_int (min (2 ^ j * second) (30 * second)) * 2))
   = min (2 ^ Suc j * second) (30 * second)"
proof -
  have s: "0 \<le> (2::int) ^ j * second" "(0::int) \<le> 30 * second"
    by (simp_all add: second_def)
  then have m: "0 \<le> min (2 ^ j * second) (30 * second)" by (simp only: min_def split: if_splits) simp
  have d: "duration_of_float (real_of_int (min (2 ^ j * second) (30 * second)) * 2)
      = 2 * min (2 ^ j * second) (30 * second)"
    using m by (rule duration_double)
  have c: "(if 2 * min (2 ^ j * second) (30 * second) > 30 * second then 30 * second
            else 2 * min (2 ^ j * second) (30 * second))
      = min (2 * (2 ^ j * second)) (30 * second)"
    using s by (rule capped_double)
  have p: "(2::int) ^ Suc j * second = 2 * (2 ^ j * second)" by simp
  show ?thesis unfolding d c p ..
qed

lemma exit_restarts:
  assumes "restartPolicy mp = policy_1_2_30 n" "restartCount mp < n"
    "nextDelay mp = min (2 ^ j * second) (30 * second)"
  shows "on_unexpected_exit mp
     = (Some (min (2 ^ j * second) (30 * second)),
        mp\<lparr>state := Starting, restartCount := restartCount mp + 1,
           nextDelay := min (2 ^ Suc j * second) (30 * second)\<rparr>)"
  unfolding exit_unfold [OF assms(1,2)] assms(3) next_delay_step ..

lemma map_upt_Suc: "map f [0..<Suc k] = f 0 # map (\<lambda>i. f (Suc i)) [0..<k]"
  by (simp only: upt_conv_Cons zero_less_Suc list.map map_Suc_upt [symmetric] map_map comp_def)

lemma failures_general:
  assumes "restartPolicy mp = policy_1_2_30 n"
    "nextDelay mp = min (2 ^ j * second) (30 * second)"
  shows "consecutive_failures k mp
     = map (\<lambda>i. if restartCount mp + int i < n
                 then Some (min (2 ^ (j + i) * second) (30 * second)) else None) [0..<k]"
  using assms
proof (induction k arbitrary: mp j)
  case 0
  then show ?case by simp
next
  case (Suc k)
  show ?case
  proof (cases "restartCount mp < n")
    case True
    let ?mp' = "mp\<lparr>state := Starting, restartCount := restartCount mp + 1,
                   nextDelay := min (2 ^ Suc j * second) (30 * second)\<rparr>"
    have e: "on_unexpected_exit mp = (Some (min (2 ^ j * second) (30 * second)), ?mp')"
      using Suc.prems(1) True Suc.prems(2) by (rule exit_restarts)
    have "consecutive_failures k ?mp'
      = map (\<lambda>i. if restartCount ?mp' + int i < n
                  then Some (min (2 ^ (Suc j + i) * second) (30 * second)) else None) [0..<k]"
      using Suc.prems by (intro Suc.IH) simp_all
    then have r: "consecutive_failures k ?mp'
      = map (\<lambda>i. if restartCount mp + int (Suc i) < n
                  then Some (min (2 ^ (j + Suc i) * second) (30 * second)) else None) [0..<k]"
      by (simp add: add.assoc add.commute)
    have "consecutive_failures (Suc k) mp
      = Some (min (2 ^ j * second) (30 * second)) # consecutive_failures k ?mp'"
      by (simp add: e)
    then show ?thesis
      unfolding r map_upt_Suc using True by simp
  next
    case False
    let ?mp' = "mp\<lparr>state := Failed\<rparr>"
    have e: "on_unexpected_exit mp = (None, ?mp')"
      using Suc.prems(1) False by (rule exit_gives_up)
    have "consecutive_failures k ?mp'
      = map (\<lambda>i. if restartCount ?mp' + int i < n
                  then Some (min (2 ^ (j + i) * second) (30 * second)) else None) [0..<k]"
      using Suc.prems by (intro Suc.IH) simp_all
    moreover have n: "\<not> restartCount mp + int i < n" for i using False by simp
    ultimately have r: "consecutive_failures k ?mp' = map (\<lambda>i. None) [0..<k]"
      by (simp add: n)
    have "consecutive_failures (Suc k) mp = None # consecutive_failures k ?mp'"
      by (simp add: e)
    then show ?thesis
      unfolding r map_upt_Suc using False by (simp add: n)
  qed
qed

lemma upt7: "[0..<7] = [0, 1, 2, 3, 4, 5, 6::nat]"
  by (simp add: upt_conv_Cons)

text \<open>
  C8. Under the restart policy with an initial delay of 1 s, a backoff multiplier of 2
  and a maximum delay of 30 s, the restart scheduled after the \<open>i\<close>-th consecutive failure
  (counting from 0) of a freshly created decoder is delayed by \<open>min (2^i s, 30 s)\<close>, that
  is 1 s, 2 s, 4 s, 8 s, 16 s, 30 s, 30 s, ..., as long as \<open>i < MaxRetries\<close>; from the
  failure number \<open>MaxRetries\<close> on, no restart is scheduled.
\<close>

theorem restart_delays:
  "consecutive_failures k (fresh_process (policy_1_2_30 n) cfg)
     = map (\<lambda>i. if int i < n then Some (min (2 ^ i * second) (30 * second)) else None)
         [0..<k] \<and>
   (7 \<le> n \<longrightarrow>
      consecutive_failures 7 (fresh_process (policy_1_2_30 n) cfg)
        = [Some (1 * second), Some (2 * second), Some (4 * second), Some (8 * second),
           Some (16 * second), Some (30 * second), Some (30 * second)]) \<and>
   (\<forall>i < k. n \<le> int i \<longrightarrow>
      consecutive_failures k (fresh_process (policy_1_2_30 n) cfg) ! i = None)"
proof -
  have p: "restartPolicy (fresh_process (policy_1_2_30 n) cfg) = policy_1_2_30 n"
    by (simp add: fresh_process_def)
  have d: "nextDelay (fresh_process (policy_1_2_30 n) cfg) = min (2 ^ 0 * second) (30 * second)"
    by (simp add: fresh_process_def policy_1_2_30_def second_def)
  have c: "restartCount (fresh_process (policy_1_2_30 n) cfg) = 0"
    by (simp add: fresh_process_def)
  have g: "consecutive_failures k' (fresh_process (policy_1_2_30 n) cfg)
     = map (\<lambda>i. if int i < n then Some (min (2 ^ i * second) (30 * second)) else None)
         [0..<k']" for k'
    using failures_general [OF p d, of k'] by (simp add: c)
  have "consecutive_failures 7 (fresh_process (policy_1_2_30 n) cfg)
        = [Some (1 * second), Some (2 * second), Some (4 * second), Some (8 * second),
           Some (16 * second), Some (30 * second), Some (30 * second)]" if "7 \<le> n"
    using that unfolding g upt7 by (simp add: second_def)
  moreover have "\<forall>i < k. n \<le> int i \<longrightarrow>
      consecutive_failures k (fresh_process (policy_1_2_30 n) cfg) ! i = None"
    unfolding g by simp
  ultimately show ?thesis using g by blast
qed

theorem restart_delays_witness:
  "(7::int) \<le> 7 \<and>
   consecutive_failures 7 (fresh_process (policy_1_2_30 7) (test_config ''decoder''))
     = [Some 1000000000, Some 2000000000, Some 4000000000, Some 8000000000,
        Some 16000000000, Some 30000000000, Some 30000000000] \<and>
   (7::nat) < 9 \<and> (7::int) \<le> int 7 \<and>
   consecutive_failures 9 (fresh_process (policy_1_2_30 7) (test_config ''decoder'')) ! 7 = None"
  using restart_delays [of 7 7 "test_config ''decoder''"]
    restart_delays [of 9 7 "test_config ''decoder''"]
  by (simp add: second_def)

end
